theory Spec2Isabelle
  imports Complex_Main "HOL-Library.Char_ord" "HOL-Library.List_Lexorder"
    "HOL-Library.Product_Lexorder"
    "HOL-Library.Multiset"
begin

section \<open>JavaScript strings and numbers\<close>

text \<open>
  A JavaScript string is modelled as a \<^typ>\<open>string\<close>, one \<^typ>\<open>char\<close> per code unit
  (code units below 256). Integral JavaScript numbers are modelled as \<^typ>\<open>int\<close> or
  \<^typ>\<open>nat\<close>; the values the booking engine computes with (seat rows, seat counts,
  sequence numbers, seconds) stay far below \<open>2^53\<close>, where doubles are exact.
\<close>

definition digitChar :: "nat \<Rightarrow> char" where
  "digitChar d = ''0123456789'' ! d"

definition isDigit :: "char \<Rightarrow> bool" where
  \<comment> \<open>the regular expression class \<open>\d\<close>\<close>
  "isDigit c = (c \<in> set ''0123456789'')"

definition digitVal :: "char \<Rightarrow> nat" where
  "digitVal c = of_char c - 48"

definition isSpace :: "char \<Rightarrow> bool" where
  \<comment> \<open>the regular expression class \<open>\s\<close>, on code units below 256\<close>
  "isSpace c = (c \<in> {CHR '' '', CHR 0x09, CHR 0x0A, CHR 0x0B, CHR 0x0C, CHR 0x0D, CHR 0xA0})"

function showNat :: "nat \<Rightarrow> string" where
  "showNat n = (if n < 10 then [digitChar n] else showNat (n div 10) @ [digitChar (n mod 10)])"
  by pat_completeness auto
termination
  by (relation "measure id") auto

declare showNat.simps [simp del]

definition showInt :: "int \<Rightarrow> string" where
  \<comment> \<open>\<open>Number.prototype.toString\<close> on an integral number\<close>
  "showInt i = (if i < 0 then CHR ''-'' # showNat (nat (- i)) else showNat (nat i))"

definition digitsVal :: "string \<Rightarrow> nat" where
  \<comment> \<open>the value of a string of decimal digits, most significant first\<close>
  "digitsVal ds = foldl (\<lambda>acc c. 10 * acc + digitVal c) 0 ds"

definition parseInt :: "string \<Rightarrow> int option" where
  \<comment> \<open>\<open>parseInt(s, 10)\<close>: leading white space, an optional sign, then the longest
      prefix of digits; \<open>None\<close> stands for \<open>NaN\<close>\<close>
  "parseInt s =
     (let t = dropWhile isSpace s;
          neg = (t \<noteq> [] \<and> hd t = CHR ''-'');
          u = (if t \<noteq> [] \<and> (hd t = CHR ''-'' \<or> hd t = CHR ''+'') then tl t else t);
          ds = takeWhile isDigit u
      in if ds = [] then None
         else Some (if neg then - int (digitsVal ds) else int (digitsVal ds)))"

definition padStart :: "nat \<Rightarrow> char \<Rightarrow> string \<Rightarrow> string" where
  "padStart n c s = replicate (n - length s) c @ s"

fun replaceFirst :: "string \<Rightarrow> string \<Rightarrow> string \<Rightarrow> string" where
  \<comment> \<open>\<open>String.prototype.replace\<close> with a string pattern: the first occurrence only\<close>
  "replaceFirst pat rep [] = (if pat = [] then rep else [])"
| "replaceFirst pat rep (c # cs) =
     (if take (length pat) (c # cs) = pat then rep @ drop (length pat) (c # cs)
      else c # replaceFirst pat rep cs)"

fun splitOn :: "char \<Rightarrow> string \<Rightarrow> string list" where
  \<comment> \<open>\<open>String.prototype.split\<close> with a one-character separator\<close>
  "splitOn sep [] = [[]]"
| "splitOn sep (c # cs) =
     (if c = sep then [] # splitOn sep cs
      else (case splitOn sep cs of [] \<Rightarrow> [[c]] | seg # segs \<Rightarrow> (c # seg) # segs))"

fun joinWith :: "string \<Rightarrow> string list \<Rightarrow> string" where
  \<comment> \<open>\<open>Array.prototype.join\<close>\<close>
  "joinWith sep [] = []"
| "joinWith sep [x] = x"
| "joinWith sep (x # y # ys) = x @ sep @ joinWith sep (y # ys)"

text \<open>
  A number that need not be integral is \<open>NaN\<close>, an infinity, or a finite value. A finite
  value is modelled by the exact quotient; the rounding of doubles is not modelled.
\<close>

datatype jsnum = NaN | PosInfinity | NegInfinity | Finite rat

definition jsDivide :: "int \<Rightarrow> int \<Rightarrow> jsnum" where
  \<comment> \<open>the operator \<open>/\<close> on two integral numbers (the divisor \<open>0\<close> is \<open>+0\<close>)\<close>
  "jsDivide a b =
     (if b = 0 then (if a = 0 then NaN else if 0 < a then PosInfinity else NegInfinity)
      else Finite (of_int a / of_int b))"

fun jsTimes :: "jsnum \<Rightarrow> int \<Rightarrow> jsnum" where
  \<comment> \<open>the operator \<open>*\<close> with a positive integral right operand\<close>
  "jsTimes (Finite x) k = Finite (x * of_int k)"
| "jsTimes v k = v"

fun toFixed0 :: "jsnum \<Rightarrow> string" where
  \<comment> \<open>\<open>Number.prototype.toFixed(0)\<close>: the nearest integer, the larger one on a tie,
      computed on the magnitude, with the sign put in front\<close>
  "toFixed0 NaN = ''NaN''"
| "toFixed0 PosInfinity = ''Infinity''"
| "toFixed0 NegInfinity = ''-Infinity''"
| "toFixed0 (Finite x) =
     (if x < 0 then CHR ''-'' # showNat (nat (round (- x))) else showNat (nat (round x)))"

section \<open>Constants\<close>

definition MAX_SEATS_PER_BOOKING :: int where
  "MAX_SEATS_PER_BOOKING = 6"

definition MOBILE_ERROR :: string where
  "MOBILE_ERROR = ''Please enter a valid 10-digit mobile number starting with 6-9''"

definition BOOKING_ID_PREFIX :: string where
  "BOOKING_ID_PREFIX = ''BK''"

definition INVALID_MOBILE :: string where
  "INVALID_MOBILE = MOBILE_ERROR"

definition PAST_DATE :: string where
  "PAST_DATE = ''Travel date cannot be in the past.''"

definition NO_SEATS_SELECTED :: string where
  "NO_SEATS_SELECTED = ''Please select at least one seat.''"

definition SEAT_LIMIT :: string where
  "SEAT_LIMIT = ''You cannot book more than '' @ showInt MAX_SEATS_PER_BOOKING @ '' seats.''"

definition SAME_MOBILE_LIMIT :: string where
  "SAME_MOBILE_LIMIT = ''This mobile number has already booked {booked} seats for this date. You can book {remaining} more seats.''"

section \<open>Validation results\<close>

record validation =
  isValid :: bool
  error :: "string option"

record mobile_validation = validation +
  cleanedNumber :: "string option"

record duplicate_check = validation +
  duplicates :: "string list"

record limit_check = validation +
  remainingSeats :: int

section \<open>Field validation\<close>

definition MOBILE_PATTERN_test :: "string \<Rightarrow> bool" where
  \<comment> \<open>the regular expression \<open>^[6-9]\d{9}$\<close>\<close>
  "MOBILE_PATTERN_test s =
     (case s of [] \<Rightarrow> False
      | c # cs \<Rightarrow> c \<in> set ''6789'' \<and> length cs = 9 \<and> list_all isDigit cs)"

definition validateMobileNumber :: "string \<Rightarrow> mobile_validation" where
  "validateMobileNumber mobile =
     (if mobile = [] then
        \<lparr>isValid = False, error = Some ''Mobile number is required.'', cleanedNumber = None\<rparr>
      else
        (let cleaned = filter (\<lambda>c. \<not> (isSpace c \<or> c = CHR ''-'')) mobile
         in if length cleaned \<noteq> 10 then
              \<lparr>isValid = False, error = Some ''Mobile number must be exactly 10 digits.'',
               cleanedNumber = None\<rparr>
            else if \<not> MOBILE_PATTERN_test cleaned then
              \<lparr>isValid = False, error = Some INVALID_MOBILE, cleanedNumber = None\<rparr>
            else \<lparr>isValid = True, error = None, cleanedNumber = Some cleaned\<rparr>))"

text \<open>
  \<open>validateTravelDate\<close> reads the clock and parses the date string with the host's
  \<open>Date\<close>. Both are parameters of the model: \<open>today\<close> is the time stamp of the local
  midnight of the current day, and \<open>localMidnight s\<close> the time stamp \<open>new Date(s)\<close> has
  after \<open>setHours(0, 0, 0, 0)\<close>, \<open>None\<close> for an invalid date (whose comparison with
  any number is false).
\<close>

record clock =
  today :: int
  localMidnight :: "string \<Rightarrow> int option"

definition validateTravelDate :: "clock \<Rightarrow> string \<Rightarrow> validation" where
  "validateTravelDate clk dateString =
     (if dateString = [] then \<lparr>isValid = False, error = Some ''Travel date is required.''\<rparr>
      else (case localMidnight clk dateString of
              None \<Rightarrow> \<lparr>isValid = True, error = None\<rparr>
            | Some selectedDate \<Rightarrow>
                if selectedDate < today clk then \<lparr>isValid = False, error = Some PAST_DATE\<rparr>
                else \<lparr>isValid = True, error = None\<rparr>))"

definition validateSeatSelection :: "string list \<Rightarrow> int \<Rightarrow> validation" where
  "validateSeatSelection selectedSeats maxSeats =
     (if selectedSeats = [] then \<lparr>isValid = False, error = Some NO_SEATS_SELECTED\<rparr>
      else if int (length selectedSeats) > maxSeats then
        \<lparr>isValid = False, error = Some SEAT_LIMIT\<rparr>
      else \<lparr>isValid = True, error = None\<rparr>)"

definition checkDuplicateSeats :: "string list \<Rightarrow> string list \<Rightarrow> duplicate_check" where
  "checkDuplicateSeats selectedSeats bookedSeats =
     (let dups = filter (\<lambda>seat. seat \<in> set bookedSeats) selectedSeats
      in if length dups > 0 then
           \<lparr>isValid = False,
            error = Some (''The following seats are already booked: '' @ joinWith '', '' dups),
            duplicates = dups\<rparr>
         else \<lparr>isValid = True, error = None, duplicates = []\<rparr>)"

section \<open>The per-mobile daily cap\<close>

definition checkSeatLimitForMobile :: "string \<Rightarrow> string \<Rightarrow> int \<Rightarrow> int \<Rightarrow> limit_check" where
  "checkSeatLimitForMobile mobileNumber date selectedSeatsCount alreadyBookedCount =
     (let totalSeats = selectedSeatsCount + alreadyBookedCount
      in if totalSeats > MAX_SEATS_PER_BOOKING then
           (let remaining = MAX_SEATS_PER_BOOKING - alreadyBookedCount
            in \<lparr>isValid = False,
                error = Some (replaceFirst ''{remaining}''
                          (showInt (if remaining > 0 then remaining else 0))
                          (replaceFirst ''{booked}'' (showInt alreadyBookedCount)
                             SAME_MOBILE_LIMIT)),
                remainingSeats = remaining\<rparr>)
         else \<lparr>isValid = True, error = None,
               remainingSeats = MAX_SEATS_PER_BOOKING - totalSeats\<rparr>)"

section \<open>The booking form\<close>

text \<open>
  The candidate the form hands to the validation engine. \<open>bookingId\<close> and
  \<open>currentSeats\<close> are \<open>undefined\<close> (\<open>None\<close>) unless a booking is being edited.
  The \<open>errors\<close> object is a map from field name to the stored message.
\<close>

record formData =
  mobileNumber :: string
  travelDate :: string
  seats :: "string list"
  bookingId :: "string option"
  currentSeats :: "string list option"

record form_validation =
  formIsValid :: bool
  errors :: "string \<rightharpoonup> string option"

definition truthy :: "string option \<Rightarrow> bool" where
  \<comment> \<open>a string or \<open>undefined\<close> used as a condition: \<open>undefined\<close> and the empty string
      are falsy\<close>
  "truthy v = (case v of None \<Rightarrow> False | Some s \<Rightarrow> s \<noteq> [])"

definition validateBookingForm ::
  "clock \<Rightarrow> formData \<Rightarrow> string list \<Rightarrow> int \<Rightarrow> form_validation \<times> formData" where
  \<comment> \<open>the result, and the candidate object as the call leaves it\<close>
  "validateBookingForm clk fd bookedSeats existingSeatsCount =
     (let mobileValidation = validateMobileNumber (formData.mobileNumber fd);
          errors1 = (if \<not> isValid mobileValidation
                     then Map.empty(''mobileNumber'' \<mapsto> error mobileValidation)
                     else Map.empty);
          fd1 = (if \<not> isValid mobileValidation then fd
                 else (case cleanedNumber mobileValidation of
                         Some cleaned \<Rightarrow> fd\<lparr>formData.mobileNumber := cleaned\<rparr>
                       | None \<Rightarrow> fd));
          dateValidation = validateTravelDate clk (formData.travelDate fd1);
          errors2 = (if \<not> isValid dateValidation
                     then errors1(''travelDate'' \<mapsto> error dateValidation) else errors1);
          seatValidation = validateSeatSelection (formData.seats fd1) MAX_SEATS_PER_BOOKING;
          errors3 = (if \<not> isValid seatValidation
                     then errors2(''seats'' \<mapsto> error seatValidation) else errors2);
          errors4 =
            (if errors3 = Map.empty \<and> truthy (formData.bookingId fd1) then
               (let excludeSeats =
                      filter (\<lambda>seat. (case formData.currentSeats fd1 of
                                         None \<Rightarrow> True | Some cur \<Rightarrow> seat \<notin> set cur))
                        bookedSeats;
                    duplicateCheck = checkDuplicateSeats (formData.seats fd1) excludeSeats
                in if \<not> isValid duplicateCheck
                   then errors3(''seats'' \<mapsto> error duplicateCheck) else errors3)
             else if errors3 = Map.empty \<and> \<not> truthy (formData.bookingId fd1) then
               (let duplicateCheck = checkDuplicateSeats (formData.seats fd1) bookedSeats
                in if \<not> isValid duplicateCheck
                   then errors3(''seats'' \<mapsto> error duplicateCheck) else errors3)
             else errors3);
          errors5 =
            (if errors4 = Map.empty then
               (let limitCheck = checkSeatLimitForMobile (formData.mobileNumber fd1)
                      (formData.travelDate fd1) (int (length (formData.seats fd1)))
                      existingSeatsCount
                in if \<not> isValid limitCheck
                   then errors4(''seats'' \<mapsto> error limitCheck) else errors4)
             else errors4)
      in (\<lparr>formIsValid = (errors5 = Map.empty), errors = errors5\<rparr>, fd1))"

section \<open>Boarding time model\<close>

record boarding_time =
  optimalTimeSeconds :: int
  optimalTimeMinutes :: int
  optimalTimeMessage :: string

record time_savings =
  savingsSeconds :: int
  savingsMinutes :: int
  savingsMessage :: string
  savingsPercentage :: string

definition jsRem :: "int \<Rightarrow> int \<Rightarrow> int" where
  \<comment> \<open>the operator \<open>%\<close>: the remainder takes the sign of the dividend\<close>
  "jsRem a b = sgn a * (\<bar>a\<bar> mod \<bar>b\<bar>)"

definition calculateBoardingTime :: "'b list \<Rightarrow> boarding_time" where
  "calculateBoardingTime bookings =
     (if bookings = [] then
        \<lparr>optimalTimeSeconds = 0, optimalTimeMinutes = 0, optimalTimeMessage = ''0 seconds''\<rparr>
      else
        (let secs = 60;
             mins = secs div 60;
             remainingSeconds = jsRem secs 60;
             msg = (if mins > 0 \<and> remainingSeconds > 0 then
                      showInt mins @ '' min '' @ showInt remainingSeconds @ '' sec''
                    else if mins > 0 then
                      showInt mins @ '' minute'' @ (if mins > 1 then ''s'' else '''')
                    else showInt remainingSeconds @ '' seconds'')
         in \<lparr>optimalTimeSeconds = secs, optimalTimeMinutes = mins,
             optimalTimeMessage = msg\<rparr>))"

definition calculateNaturalOrderTime :: "'b list \<Rightarrow> int" where
  "calculateNaturalOrderTime bookings =
     (if bookings = [] then 0 else int (length bookings) * 60)"

definition calculateTimeSavings :: "int \<Rightarrow> int \<Rightarrow> time_savings" where
  "calculateTimeSavings naturalTimeSeconds optimalSeconds =
     (let savings = naturalTimeSeconds - optimalSeconds;
          mins = savings div 60;
          remainingSeconds = jsRem savings 60;
          msg = (if mins > 0 \<and> remainingSeconds > 0 then
                   showInt mins @ ''m '' @ showInt remainingSeconds @ ''s''
                 else if mins > 0 then showInt mins @ ''m''
                 else showInt remainingSeconds @ ''s'')
      in \<lparr>savingsSeconds = savings, savingsMinutes = mins, savingsMessage = msg,
          savingsPercentage = toFixed0 (jsTimes (jsDivide savings naturalTimeSeconds) 100)\<rparr>)"

section \<open>Bookings and the boarding sequence\<close>

record booking =
  bookingId :: string
  travelDate :: string
  mobileNumber :: string
  seats :: "string list"
  bookingTime :: string
  boardingStatus :: string

record booking_meta = booking +
  farthestRow :: nat
  totalSeats :: nat
  seatsInFarthestRow :: nat

record sequenced_booking = booking_meta +
  sequenceNumber :: nat

definition extractRowNumber :: "string \<Rightarrow> nat" where
  \<comment> \<open>the first run of digits of the seat identifier, read in base 10; 0 without one\<close>
  "extractRowNumber seat =
     (if seat = [] then 0
      else (let rowMatch = takeWhile isDigit (dropWhile (\<lambda>c. \<not> isDigit c) seat)
            in if rowMatch = [] then 0 else digitsVal rowMatch))"

definition Math_max :: "nat list \<Rightarrow> nat" where
  \<comment> \<open>\<open>Math.max\<close> of a non-empty argument list of row numbers\<close>
  "Math_max xs = foldr max xs 0"

definition findFarthestRow :: "string list \<Rightarrow> nat" where
  "findFarthestRow ss = (if ss = [] then 0 else Math_max (map extractRowNumber ss))"

definition countSeatsInRow :: "string list \<Rightarrow> nat \<Rightarrow> nat" where
  "countSeatsInRow ss row =
     (if ss = [] then 0 else length (filter (\<lambda>seat. extractRowNumber seat = row) ss))"

text \<open>
  \<open>Array.prototype.sort\<close> with a comparator is stable, and with a consistent comparator
  its result is the one every stable sort gives; it is modelled by stable insertion:
  an element goes in front of the first element it does not compare greater than.
\<close>

fun insertBy :: "('a \<Rightarrow> 'a \<Rightarrow> int) \<Rightarrow> 'a \<Rightarrow> 'a list \<Rightarrow> 'a list" where
  "insertBy cmp x [] = [x]"
| "insertBy cmp x (y # ys) = (if cmp x y \<le> 0 then x # y # ys else y # insertBy cmp x ys)"

definition sortBy :: "('a \<Rightarrow> 'a \<Rightarrow> int) \<Rightarrow> 'a list \<Rightarrow> 'a list" where
  "sortBy cmp xs = foldr (insertBy cmp) xs []"

text \<open>
  \<open>String.prototype.localeCompare\<close> is the host's collation, a parameter
  \<open>localeCompare\<close> of the model: negative, zero or positive.
\<close>

definition compareBookings ::
  "(string \<Rightarrow> string \<Rightarrow> int) \<Rightarrow> booking_meta \<Rightarrow> booking_meta \<Rightarrow> int" where
  "compareBookings localeCompare a b =
     (if farthestRow b \<noteq> farthestRow a then int (farthestRow b) - int (farthestRow a)
      else if seatsInFarthestRow b \<noteq> seatsInFarthestRow a
        then int (seatsInFarthestRow b) - int (seatsInFarthestRow a)
      else if totalSeats b \<noteq> totalSeats a then int (totalSeats b) - int (totalSeats a)
      else localeCompare (bookingId a) (bookingId b))"

definition withMetadata :: "booking \<Rightarrow> booking_meta" where
  "withMetadata b =
     booking.extend b
       \<lparr>farthestRow = findFarthestRow (seats b),
        totalSeats = length (seats b),
        seatsInFarthestRow = countSeatsInRow (seats b) (findFarthestRow (seats b))\<rparr>"

definition calculateOptimalBoardingSequence ::
  "(string \<Rightarrow> string \<Rightarrow> int) \<Rightarrow> booking list \<Rightarrow> sequenced_booking list" where
  "calculateOptimalBoardingSequence localeCompare bs =
     (if bs = [] then []
      else (let bookingsWithMetadata = map withMetadata bs;
                sortedBookings = sortBy (compareBookings localeCompare) bookingsWithMetadata
            in map (\<lambda>(index, b). booking_meta.extend b \<lparr>sequenceNumber = index + 1\<rparr>)
                 (enumerate 0 sortedBookings)))"

definition lexCompare :: "string \<Rightarrow> string \<Rightarrow> int" where
  \<comment> \<open>the collation that compares code unit by code unit\<close>
  "lexCompare a b = (if a < b then - 1 else if a = b then 0 else 1)"

definition lexicographic_on :: "(string \<Rightarrow> string \<Rightarrow> int) \<Rightarrow> string list \<Rightarrow> bool" where
  \<comment> \<open>on these strings the collation agrees with the lexicographic order\<close>
  "lexicographic_on localeCompare ids =
     list_all (\<lambda>x. list_all (\<lambda>y. (localeCompare x y < 0 \<longleftrightarrow> x < y) \<and>
                                   (localeCompare x y = 0 \<longleftrightarrow> x = y)) ids) ids"

text \<open>The order the specification asks for, in its own words.\<close>

definition spec_farthestRow :: "string list \<Rightarrow> nat" where
  \<comment> \<open>the maximum row number over the seats (0 for a booking without seats)\<close>
  "spec_farthestRow ss = (if ss = [] then 0 else Max (set (map extractRowNumber ss)))"

definition spec_seatsInFarthestRow :: "string list \<Rightarrow> nat" where
  "spec_seatsInFarthestRow ss =
     length (filter (\<lambda>seat. extractRowNumber seat = spec_farthestRow ss) ss)"

definition spec_tuple :: "'a booking_scheme \<Rightarrow> nat \<times> nat \<times> nat" where
  "spec_tuple b =
     (spec_farthestRow (seats b), spec_seatsInFarthestRow (seats b), length (seats b))"

definition spec_before :: "'a booking_scheme \<Rightarrow> 'a booking_scheme \<Rightarrow> bool" where
  \<comment> \<open>descending by the tuple, then ascending by \<open>bookingId\<close>\<close>
  "spec_before a b =
     (spec_tuple b < spec_tuple a \<or> (spec_tuple a = spec_tuple b \<and> bookingId a \<le> bookingId b))"

definition unsequenced :: "sequenced_booking \<Rightarrow> booking" where
  \<comment> \<open>the booking an annotated entry was made from\<close>
  "unsequenced r = booking.truncate r"

section \<open>The booking store\<close>

record store =
  bookings :: "booking list"
  lastBookingNumber :: int

definition emptyStore :: store where
  "emptyStore = \<lparr>bookings = [], lastBookingNumber = 0\<rparr>"

text \<open>
  What \<open>localStorage\<close> holds under the key \<open>busBookings\<close>, as far as
  \<open>getBookingsFromStorage\<close> looks at it: nothing (or the empty string); a text
  \<open>JSON.parse\<close> rejects; a JSON value that is no object (\<open>null\<close>, a number, a string, a
  boolean); or an object or array, with its \<open>bookings\<close> property when that is an array
  and its \<open>lastBookingNumber\<close> property when that is a number. The elements of a bookings
  array are bookings, as \<open>JSON.stringify\<close> wrote them: every field of a booking is a
  string or an array of strings, which \<open>JSON.parse\<close> gives back unchanged.
\<close>

datatype item = Absent | Unparseable | NonObject | Object "booking list option" "int option"

datatype log = Warn string | Error string

text \<open>
  The module state (\<open>_localStorageAvailable\<close>, \<open>_inMemoryStore\<close>), the console, and
  the host's storage: whether access to \<open>localStorage\<close> works at all (\<open>storageUsable\<close>)
  and the item it holds.
\<close>

record world =
  localStorageAvailable :: "bool option"
  inMemoryStore :: store
  storageUsable :: bool
  storedItem :: item
  console :: "log list"

definition isLocalStorageAvailable :: "world \<Rightarrow> bool \<times> world" where
  "isLocalStorageAvailable w =
     (case localStorageAvailable w of
        Some known \<Rightarrow> (known, w)
      | None \<Rightarrow>
          if storageUsable w then (True, w\<lparr>localStorageAvailable := Some True\<rparr>)
          else (False,
                w\<lparr>localStorageAvailable := Some False,
                  console := console w
                    @ [Warn ''Local storage unavailable, falling back to in-memory store.'']\<rparr>))"

datatype exn = StorageException | SyntaxError

definition readItem :: "world \<Rightarrow> exn + (store \<times> world)" where
  \<comment> \<open>the body of the \<open>try\<close> block of \<open>getBookingsFromStorage\<close>\<close>
  "readItem w =
     (if \<not> storageUsable w then Inl StorageException
      else (case storedItem w of
              Absent \<Rightarrow> Inr (emptyStore, w)
            | Unparseable \<Rightarrow> Inl SyntaxError
            | Object (Some bs) (Some n) \<Rightarrow> Inr (\<lparr>bookings = bs, lastBookingNumber = n\<rparr>, w)
            | _ \<Rightarrow>
                Inr (emptyStore,
                     w\<lparr>console := console w
                          @ [Warn ''Unexpected bookings storage format detected, resetting. Value:''],
                       storedItem := Absent\<rparr>)))"

definition getBookingsFromStorage :: "world \<Rightarrow> store \<times> world" where
  "getBookingsFromStorage w =
     (let (available, w1) = isLocalStorageAvailable w
      in if \<not> available then (inMemoryStore w1, w1)
         else (case readItem w1 of
                 Inr r \<Rightarrow> r
               | Inl e \<Rightarrow>
                   (emptyStore,
                    w1\<lparr>console := console w1 @ [Error ''Error reading from local storage:'']\<rparr>)))"

definition saveBookingsToStorage :: "bool \<Rightarrow> store \<Rightarrow> world \<Rightarrow> bool \<times> world" where
  \<comment> \<open>\<open>accepted\<close>: whether \<open>localStorage.setItem\<close> takes this write (it throws when the
      quota is exceeded)\<close>
  "saveBookingsToStorage accepted data w =
     (let (available, w1) = isLocalStorageAvailable w
      in if \<not> available then (True, w1\<lparr>inMemoryStore := data\<rparr>)
         else if storageUsable w1 \<and> accepted then
           (True, w1\<lparr>storedItem := Object (Some (bookings data)) (Some (lastBookingNumber data))\<rparr>)
         else
           (False,
            w1\<lparr>console := console w1
                 @ [Error ''Error saving to local storage in saveBookingsToStorage:'']\<rparr>))"

fun findIndex :: "('a \<Rightarrow> bool) \<Rightarrow> 'a list \<Rightarrow> nat option" where
  \<comment> \<open>\<open>None\<close> stands for \<open>-1\<close>\<close>
  "findIndex p [] = None"
| "findIndex p (x # xs) =
     (if p x then Some 0 else (case findIndex p xs of None \<Rightarrow> None | Some i \<Rightarrow> Some (i + 1)))"

record result =
  success :: bool
  message :: string

record save_result = result +
  booking :: "booking option"

definition saveBooking :: "bool \<Rightarrow> booking \<Rightarrow> world \<Rightarrow> save_result \<times> world" where
  "saveBooking accepted b w =
     (let (data, w1) = getBookingsFromStorage w;
          existingIndex = findIndex (\<lambda>x. bookingId x = bookingId b) (bookings data);
          data1 =
            (case existingIndex of
               Some i \<Rightarrow> data\<lparr>bookings := (bookings data)[i := b]\<rparr>
             | None \<Rightarrow>
                 (let pushed = data\<lparr>bookings := bookings data @ [b]\<rparr>
                  in case parseInt (last (splitOn CHR ''-'' (bookingId b))) of
                       None \<Rightarrow> pushed
                     | Some bookingNumber \<Rightarrow>
                         if bookingNumber > lastBookingNumber pushed
                         then pushed\<lparr>lastBookingNumber := bookingNumber\<rparr> else pushed));
          (ok, w2) = saveBookingsToStorage accepted data1 w1
      in if \<not> ok then
           (\<lparr>success = False, message = ''Unable to save booking. Please try again.'',
             booking = None\<rparr>,
            w2\<lparr>console := console w2
                 @ [Error ''saveBooking failed because saveBookingsToStorage returned false'']\<rparr>)
         else
           (\<lparr>success = True,
             message = (if existingIndex \<noteq> None then ''Booking updated successfully!''
                        else ''Booking created successfully!''),
             booking = Some b\<rparr>, w2))"

definition deleteBooking :: "bool \<Rightarrow> string \<Rightarrow> world \<Rightarrow> result \<times> world" where
  "deleteBooking accepted bid w =
     (let (data, w1) = getBookingsFromStorage w;
          initialLength = length (bookings data);
          data1 = data\<lparr>bookings := filter (\<lambda>x. bookingId x \<noteq> bid) (bookings data)\<rparr>
      in if length (bookings data1) = initialLength then
           (\<lparr>success = False, message = ''Booking not found.''\<rparr>, w1)
         else
           (let (ok, w2) = saveBookingsToStorage accepted data1 w1
            in (\<lparr>success = ok,
                 message = (if ok then ''Booking cancelled successfully!''
                            else ''Unable to cancel booking.'')\<rparr>, w2)))"

definition getNextBookingNumber :: "world \<Rightarrow> int \<times> world" where
  "getNextBookingNumber w =
     (let (data, w1) = getBookingsFromStorage w in (lastBookingNumber data + 1, w1))"

definition generateBookingId :: "string \<Rightarrow> world \<Rightarrow> string \<times> world" where
  "generateBookingId date w =
     (let datePart = filter (\<lambda>c. c \<noteq> CHR ''-'') date;
          (next, w1) = getNextBookingNumber w;
          sequenceNo = padStart 6 CHR ''0'' (showInt next)
      in (BOOKING_ID_PREFIX @ ''-'' @ datePart @ ''-'' @ sequenceNo, w1))"

text \<open>Sequences of store operations, each with the host's answer to its write.\<close>

datatype operation = Save bool booking | Delete bool string

fun perform :: "operation \<Rightarrow> world \<Rightarrow> world" where
  "perform (Save accepted b) w = snd (saveBooking accepted b w)"
| "perform (Delete accepted bid) w = snd (deleteBooking accepted bid w)"

definition performAll :: "operation list \<Rightarrow> world \<Rightarrow> world" where
  "performAll ops w = fold perform ops w"

definition loadAll :: "world \<Rightarrow> store" where
  \<comment> \<open>the store a call of \<open>getBookingsFromStorage\<close> returns in this state\<close>
  "loadAll w = fst (getBookingsFromStorage w)"

definition idSuffix :: "string \<Rightarrow> int option" where
  \<comment> \<open>the numeric suffix of a booking identifier, as \<open>saveBooking\<close> reads it\<close>
  "idSuffix s = parseInt (last (splitOn CHR ''-'' s))"

definition initialWorld :: "bool \<Rightarrow> world" where
  \<comment> \<open>a fresh page load over an empty storage\<close>
  "initialWorld usable =
     \<lparr>localStorageAvailable = None, inMemoryStore = emptyStore, storageUsable = usable,
      storedItem = Absent, console = []\<rparr>"

section \<open>Notions used in the statements\<close>

definition cleanMobile :: "string \<Rightarrow> string" where
  \<comment> \<open>the mobile number as \<open>validateMobileNumber\<close> cleans it: white space and dashes
      removed\<close>
  "cleanMobile mobile = filter (\<lambda>c. \<not> (isSpace c \<or> c = CHR ''-'')) mobile"

definition ownSeat :: "formData \<Rightarrow> string \<Rightarrow> bool" where
  \<comment> \<open>a seat of the booking being edited\<close>
  "ownSeat fd seat = (case formData.currentSeats fd of None \<Rightarrow> False | Some cur \<Rightarrow> seat \<in> set cur)"


definition store_ok :: "store \<Rightarrow> bool" where
  \<comment> \<open>the counter is non-negative and at least the numeric suffix of every stored
      \<open>bookingId\<close>\<close>
  "store_ok data =
     (0 \<le> lastBookingNumber data \<and>
      list_all (\<lambda>b. case idSuffix (bookingId b) of
                        None \<Rightarrow> True | Some k \<Rightarrow> k \<le> lastBookingNumber data)
        (bookings data))"

section \<open>Auxiliary notions of the proofs\<close>

definition basicErrors :: "clock \<Rightarrow> formData \<Rightarrow> (string \<rightharpoonup> string option)" where
  \<comment> \<open>the errors the mobile, travel-date and seat-count rules leave\<close>
  "basicErrors clk fd =
     (\<lambda>k. if k = ''seats'' \<and> \<not> isValid (validateSeatSelection (formData.seats fd) MAX_SEATS_PER_BOOKING)
            then Some (error (validateSeatSelection (formData.seats fd) MAX_SEATS_PER_BOOKING))
          else if k = ''travelDate'' \<and> \<not> isValid (validateTravelDate clk (formData.travelDate fd))
            then Some (error (validateTravelDate clk (formData.travelDate fd)))
          else if k = ''mobileNumber'' \<and> \<not> isValid (validateMobileNumber (formData.mobileNumber fd))
            then Some (error (validateMobileNumber (formData.mobileNumber fd)))
          else None)"

definition conflictSeats :: "formData \<Rightarrow> string list \<Rightarrow> string list" where
  \<comment> \<open>the booked seats the duplicate check compares the selection with\<close>
  "conflictSeats fd booked =
     (if truthy (formData.bookingId fd) then
        filter (\<lambda>seat. case formData.currentSeats fd of None \<Rightarrow> True | Some cur \<Rightarrow> seat \<notin> set cur) booked
      else booked)"

definition upsert :: "booking \<Rightarrow> store \<Rightarrow> store" where
  \<comment> \<open>the store \<open>saveBooking\<close> hands to \<open>saveBookingsToStorage\<close>\<close>
  "upsert b data =
     (case findIndex (\<lambda>x. bookingId x = bookingId b) (bookings data) of
        Some i \<Rightarrow> data\<lparr>bookings := (bookings data)[i := b]\<rparr>
      | None \<Rightarrow>
          (let pushed = data\<lparr>bookings := bookings data @ [b]\<rparr>
           in case idSuffix (bookingId b) of
                None \<Rightarrow> pushed
              | Some bookingNumber \<Rightarrow>
                  if bookingNumber > lastBookingNumber pushed
                  then pushed\<lparr>lastBookingNumber := bookingNumber\<rparr> else pushed))"

definition remove :: "string \<Rightarrow> store \<Rightarrow> store" where
  \<comment> \<open>the store \<open>deleteBooking\<close> hands to \<open>saveBookingsToStorage\<close>\<close>
  "remove bid data = data\<lparr>bookings := filter (\<lambda>x. bookingId x \<noteq> bid) (bookings data)\<rparr>"

definition usesLocalStorage :: "world \<Rightarrow> bool" where
  \<comment> \<open>the answer of \<open>isLocalStorageAvailable\<close>\<close>
  "usesLocalStorage w = (case localStorageAvailable w of Some known \<Rightarrow> known | None \<Rightarrow> storageUsable w)"

definition itemStore :: "item \<Rightarrow> store" where
  \<comment> \<open>the store read from an item\<close>
  "itemStore it = (case it of Object (Some bs) (Some n) \<Rightarrow> \<lparr>bookings = bs, lastBookingNumber = n\<rparr>
                   | _ \<Rightarrow> emptyStore)"

definition annotate :: "nat \<times> booking_meta \<Rightarrow> sequenced_booking" where
  \<comment> \<open>the function of the last \<open>map\<close> of \<open>calculateOptimalBoardingSequence\<close>\<close>
  "annotate p = booking_meta.extend (snd p) \<lparr>sequenceNumber = fst p + 1\<rparr>"

section \<open>Example data\<close>

definition exampleClock :: clock where
  "exampleClock =
     \<lparr>today = 20254,
      localMidnight = (\<lambda>s. if s = ''2025-06-15'' then Some 20254 else None)\<rparr>"

definition candidateBadMobile :: formData where
  "candidateBadMobile =
     \<lparr>formData.mobileNumber = ''12345'', formData.travelDate = ''2025-06-15'', formData.seats = [''A5''],
      formData.bookingId = None, formData.currentSeats = None\<rparr>"

definition candidateNoSeats :: formData where
  "candidateNoSeats =
     \<lparr>formData.mobileNumber = ''98765-43210'', formData.travelDate = ''2025-06-15'', formData.seats = [],
      formData.bookingId = None, formData.currentSeats = None\<rparr>"

definition candidateNew :: formData where
  "candidateNew =
     \<lparr>formData.mobileNumber = ''98765 43210'', formData.travelDate = ''2025-06-15'', formData.seats = [''A5''],
      formData.bookingId = None, formData.currentSeats = None\<rparr>"

definition candidateEdit :: formData where
  "candidateEdit =
     \<lparr>formData.mobileNumber = ''9876543210'', formData.travelDate = ''2025-06-15'', formData.seats = [''A5''],
      formData.bookingId = Some ''BK-20250615-000001'', formData.currentSeats = Some [''A5'']\<rparr>"

definition exampleBooking :: booking where
  "exampleBooking =
     \<lparr>bookingId = ''BK-20250615-000001'', travelDate = ''2025-06-15'',
      mobileNumber = ''9876543210'', seats = [''A5'', ''B5''],
      bookingTime = ''2025-06-01T10:00:00.000Z'', boardingStatus = ''not_boarded''\<rparr>"

definition exampleBookings :: "booking list" where
  "exampleBookings =
     [\<lparr>bookingId = ''BK-20250615-000001'', travelDate = ''2025-06-15'',
       mobileNumber = ''9876543210'', seats = [''A3''],
       bookingTime = ''2025-06-01T10:00:00.000Z'', boardingStatus = ''not_boarded''\<rparr>,
      \<lparr>bookingId = ''BK-20250615-000002'', travelDate = ''2025-06-15'',
       mobileNumber = ''9876543211'', seats = [''A10'', ''B9''],
       bookingTime = ''2025-06-01T10:05:00.000Z'', boardingStatus = ''not_boarded''\<rparr>,
      \<lparr>bookingId = ''BK-20250615-000003'', travelDate = ''2025-06-15'',
       mobileNumber = ''9876543212'', seats = [''C10'', ''D10''],
       bookingTime = ''2025-06-01T10:10:00.000Z'', boardingStatus = ''not_boarded''\<rparr>,
      \<lparr>bookingId = ''BK-20250615-000004'', travelDate = ''2025-06-15'',
       mobileNumber = ''9876543213'', seats = [''A15''],
       bookingTime = ''2025-06-01T10:15:00.000Z'', boardingStatus = ''not_boarded''\<rparr>]"

section \<open>Facts about decimal rendering\<close>

lemma digitChar_not_brace: "d < 10 \<Longrightarrow> digitChar d \<noteq> CHR ''{''"
proof -
  assume "d < 10"
  then have "d \<in> {0, 1, 2, 3, 4, 5, 6, 7, 8, 9}" by auto
  then show ?thesis by (auto simp: digitChar_def)
qed

lemma showNat_no_brace: "CHR ''{'' \<notin> set (showNat n)"
proof (induction n rule: showNat.induct)
  case (1 n)
  show ?case
  proof (cases "n < 10")
    case True
    then show ?thesis using digitChar_not_brace [of n] by (simp add: showNat.simps [of n])
  next
    case False
    have "n mod 10 < 10" by simp
    then have "digitChar (n mod 10) \<noteq> CHR ''{''" by (rule digitChar_not_brace)
    with False "1.IH" show ?thesis by (simp add: showNat.simps [of n])
  qed
qed

lemma showInt_no_brace: "CHR ''{'' \<notin> set (showInt i)"
  by (simp add: showInt_def showNat_no_brace)

lemma replaceFirst_skip:
  "CHR ''{'' \<notin> set xs \<Longrightarrow> replaceFirst (CHR ''{'' # p) rep (xs @ ys) = xs @ replaceFirst (CHR ''{'' # p) rep ys"
  by (induction xs) auto

lemma same_mobile_limit_message:
  "replaceFirst ''{remaining}'' (showInt r) (replaceFirst ''{booked}'' (showInt a) SAME_MOBILE_LIMIT)
   = ''This mobile number has already booked '' @ showInt a
     @ '' seats for this date. You can book '' @ showInt r @ '' more seats.''"
proof -
  have first: "replaceFirst ''{booked}'' (showInt a) SAME_MOBILE_LIMIT
      = ''This mobile number has already booked '' @ (showInt a
        @ '' seats for this date. You can book {remaining} more seats.'')"
    by (simp add: SAME_MOBILE_LIMIT_def)
  have skip: "replaceFirst ''{remaining}'' (showInt r)
        (showInt a @ '' seats for this date. You can book {remaining} more seats.'')
      = showInt a @ replaceFirst ''{remaining}'' (showInt r)
          '' seats for this date. You can book {remaining} more seats.''"
    using showInt_no_brace [of a] by (rule replaceFirst_skip)
  show ?thesis
    unfolding first by (simp add: skip)
qed

section \<open>Facts about the time model\<close>

lemma toFixed0_nonneg: "0 \<le> x \<Longrightarrow> toFixed0 (Finite x) = showNat (nat (round x))"
  by (simp add: not_less [symmetric])

lemma savingsSeconds_eq: "savingsSeconds (calculateTimeSavings n ot) = n - ot"
  by (simp add: calculateTimeSavings_def Let_def)

lemma savingsPercentage_eq:
  "n \<noteq> 0 \<Longrightarrow> savingsPercentage (calculateTimeSavings n ot)
     = toFixed0 (Finite (of_int (n - ot) / of_int n * 100))"
  by (simp add: calculateTimeSavings_def Let_def jsDivide_def)

section \<open>Facts about the booking form\<close>

lemma validateMobileNumber_valid:
  "isValid (validateMobileNumber m) \<Longrightarrow>
     cleanedNumber (validateMobileNumber m) = Some (cleanMobile m) \<and>
     length (cleanMobile m) = 10 \<and> MOBILE_PATTERN_test (cleanMobile m)"
  unfolding validateMobileNumber_def cleanMobile_def Let_def
  by (simp split: if_splits)

lemma candidate_after:
  "snd (validateBookingForm clk fd booked n) =
     (if isValid (validateMobileNumber (formData.mobileNumber fd))
      then fd\<lparr>formData.mobileNumber := cleanMobile (formData.mobileNumber fd)\<rparr> else fd)"
proof -
  have "snd (validateBookingForm clk fd booked n) =
      (if \<not> isValid (validateMobileNumber (formData.mobileNumber fd)) then fd
       else (case cleanedNumber (validateMobileNumber (formData.mobileNumber fd)) of
               Some cleaned \<Rightarrow> fd\<lparr>formData.mobileNumber := cleaned\<rparr>
             | None \<Rightarrow> fd))"
    by (simp only: validateBookingForm_def Let_def snd_conv)
  then show ?thesis
    using validateMobileNumber_valid [of "formData.mobileNumber fd"] by auto
qed

lemma errors_when_basic_fails:
  assumes "\<not> (isValid (validateMobileNumber (formData.mobileNumber fd)) \<and>
              isValid (validateTravelDate clk (formData.travelDate fd)) \<and>
              isValid (validateSeatSelection (formData.seats fd) MAX_SEATS_PER_BOOKING))"
  shows "errors (fst (validateBookingForm clk fd booked n)) = basicErrors clk fd"
proof -
  let ?m = "isValid (validateMobileNumber (formData.mobileNumber fd))"
  let ?d = "isValid (validateTravelDate clk (formData.travelDate fd))"
  let ?s = "isValid (validateSeatSelection (formData.seats fd) MAX_SEATS_PER_BOOKING)"
  consider (m) "\<not> ?m" "?d" "?s" | (md) "\<not> ?m" "\<not> ?d" "?s" | (ms) "\<not> ?m" "?d" "\<not> ?s"
    | (mds) "\<not> ?m" "\<not> ?d" "\<not> ?s" | (d) "?m" "\<not> ?d" "?s" | (ds) "?m" "\<not> ?d" "\<not> ?s"
    | (s) "?m" "?d" "\<not> ?s"
    using assms by blast
  then show ?thesis
  proof cases
    case m
    show ?thesis
      by (rule ext) (use m in \<open>simp add: validateBookingForm_def Let_def basicErrors_def\<close>)
  next
    case md
    show ?thesis
      by (rule ext) (use md in \<open>simp add: validateBookingForm_def Let_def basicErrors_def\<close>)
  next
    case ms
    show ?thesis
      by (rule ext) (use ms in \<open>simp add: validateBookingForm_def Let_def basicErrors_def\<close>)
  next
    case mds
    show ?thesis
      by (rule ext) (use mds in \<open>simp add: validateBookingForm_def Let_def basicErrors_def\<close>)
  next
    case d
    show ?thesis
      by (rule ext) (use d validateMobileNumber_valid [OF d(1)] in
          \<open>simp add: validateBookingForm_def Let_def basicErrors_def\<close>)
  next
    case ds
    show ?thesis
      by (rule ext) (use ds validateMobileNumber_valid [OF ds(1)] in
          \<open>simp add: validateBookingForm_def Let_def basicErrors_def\<close>)
  next
    case s
    show ?thesis
      by (rule ext) (use s validateMobileNumber_valid [OF s(1)] in
          \<open>simp add: validateBookingForm_def Let_def basicErrors_def\<close>)
  qed
qed

lemma errors_when_basic_passes:
  assumes "isValid (validateMobileNumber (formData.mobileNumber fd))"
    and "isValid (validateTravelDate clk (formData.travelDate fd))"
    and "isValid (validateSeatSelection (formData.seats fd) MAX_SEATS_PER_BOOKING)"
  shows "errors (fst (validateBookingForm clk fd booked n)) =
     (let dup = checkDuplicateSeats (formData.seats fd) (conflictSeats fd booked);
          lim = checkSeatLimitForMobile (cleanMobile (formData.mobileNumber fd))
                  (formData.travelDate fd) (int (length (formData.seats fd))) n
      in if \<not> isValid dup then [''seats'' \<mapsto> error dup]
         else if \<not> isValid lim then [''seats'' \<mapsto> error lim]
         else Map.empty)"
  using assms validateMobileNumber_valid [OF assms(1)]
  by (simp add: validateBookingForm_def Let_def conflictSeats_def)

lemma example_mobiles:
  "\<not> isValid (validateMobileNumber ''12345'')"
  "isValid (validateMobileNumber ''98765-43210'')"
  "isValid (validateMobileNumber ''98765 43210'')"
  "isValid (validateMobileNumber ''9876543210'')"
  "cleanMobile ''98765-43210'' = ''9876543210''"
  "cleanMobile ''98765 43210'' = ''9876543210''"
  "cleanMobile ''9876543210'' = ''9876543210''"
  by (simp_all add: validateMobileNumber_def cleanMobile_def Let_def isSpace_def
      MOBILE_PATTERN_test_def isDigit_def)

lemma example_date: "isValid (validateTravelDate exampleClock ''2025-06-15'')"
  by (simp add: validateTravelDate_def exampleClock_def)

lemma example_seat_selection:
  "isValid (validateSeatSelection [''A5''] MAX_SEATS_PER_BOOKING)"
  "\<not> isValid (validateSeatSelection [] MAX_SEATS_PER_BOOKING)"
  by (simp_all add: validateSeatSelection_def MAX_SEATS_PER_BOOKING_def)

lemma formIsValid_eq:
  "formIsValid (fst (validateBookingForm clk fd booked n))
     = (errors (fst (validateBookingForm clk fd booked n)) = Map.empty)"
  by (simp only: validateBookingForm_def Let_def fst_conv form_validation.simps)

lemma limit_valid_iff: "isValid (checkSeatLimitForMobile m d s a) \<longleftrightarrow> s + a \<le> 6"
  by (simp add: checkSeatLimitForMobile_def Let_def MAX_SEATS_PER_BOOKING_def)

lemma duplicate_valid_iff:
  "isValid (checkDuplicateSeats selected booked) \<longleftrightarrow> \<not> (\<exists>s \<in> set selected. s \<in> set booked)"
  by (auto simp: checkDuplicateSeats_def Let_def filter_empty_conv)

lemma conflictSeats_member:
  "s \<in> set (conflictSeats fd booked) \<longleftrightarrow>
     s \<in> set booked \<and> (truthy (formData.bookingId fd) \<longrightarrow> \<not> ownSeat fd s)"
  by (auto simp: conflictSeats_def ownSeat_def split: option.splits)

lemma errors_all_rules:
  assumes "isValid (validateMobileNumber (formData.mobileNumber fd))"
    and "isValid (validateTravelDate clk (formData.travelDate fd))"
    and "isValid (validateSeatSelection (formData.seats fd) MAX_SEATS_PER_BOOKING)"
    and "int (length (formData.seats fd)) + n \<le> 6"
  shows "errors (fst (validateBookingForm clk fd booked n)) =
     (if \<exists>s \<in> set (formData.seats fd). s \<in> set (conflictSeats fd booked)
      then [''seats'' \<mapsto> error (checkDuplicateSeats (formData.seats fd) (conflictSeats fd booked))]
      else Map.empty)"
  unfolding errors_when_basic_passes [OF assms(1-3)] Let_def
  using assms(4) by (simp add: limit_valid_iff duplicate_valid_iff)

section \<open>Facts about reading and writing the store\<close>


lemma available_fst: "fst (isLocalStorageAvailable w) = usesLocalStorage w"
  by (cases "localStorageAvailable w") (simp_all add: isLocalStorageAvailable_def usesLocalStorage_def)

lemma available_snd:
  "localStorageAvailable (snd (isLocalStorageAvailable w)) = Some (usesLocalStorage w)"
  "inMemoryStore (snd (isLocalStorageAvailable w)) = inMemoryStore w"
  "storageUsable (snd (isLocalStorageAvailable w)) = storageUsable w"
  "storedItem (snd (isLocalStorageAvailable w)) = storedItem w"
  by (cases "localStorageAvailable w"; simp add: isLocalStorageAvailable_def usesLocalStorage_def)+

lemma readItem_store:
  "readItem w = Inr r \<Longrightarrow> fst r = itemStore (storedItem w)"
  by (cases "storedItem w")
    (auto simp: readItem_def itemStore_def split: if_splits option.splits)

lemma readItem_exn:
  "readItem w = Inl e \<Longrightarrow> \<not> storageUsable w \<or> storedItem w = Unparseable"
  by (cases "storedItem w")
    (auto simp: readItem_def split: if_splits option.splits)

lemma readItem_usable: "readItem w = Inr r \<Longrightarrow> storageUsable w"
  by (auto simp: readItem_def split: if_splits)

lemma readItem_after:
  "readItem w = Inr r \<Longrightarrow>
     localStorageAvailable (snd r) = localStorageAvailable w \<and>
     inMemoryStore (snd r) = inMemoryStore w \<and> storageUsable (snd r) = storageUsable w \<and>
     itemStore (storedItem (snd r)) = itemStore (storedItem w)"
  by (cases "storedItem w")
    (auto simp: readItem_def itemStore_def split: if_splits option.splits)

lemma loadAll_eq:
  "loadAll w =
     (if \<not> usesLocalStorage w then inMemoryStore w
      else if \<not> storageUsable w then emptyStore
      else itemStore (storedItem w))"
proof (cases "usesLocalStorage w")
  case False
  then show ?thesis
    by (simp add: loadAll_def getBookingsFromStorage_def case_prod_beta available_fst available_snd)
next
  case True
  show ?thesis
  proof (cases "readItem (snd (isLocalStorageAvailable w))")
    case (Inl e)
    from readItem_exn [OF Inl] have "\<not> storageUsable w \<or> storedItem w = Unparseable"
      by (simp add: available_snd)
    then show ?thesis using True Inl
      by (auto simp: loadAll_def getBookingsFromStorage_def case_prod_beta available_fst
          itemStore_def)
  next
    case (Inr r)
    from readItem_store [OF Inr] readItem_usable [OF Inr] show ?thesis using True Inr
      by (simp add: loadAll_def getBookingsFromStorage_def case_prod_beta available_fst
          available_snd)
  qed
qed

lemma read_after:
  "usesLocalStorage (snd (getBookingsFromStorage w)) = usesLocalStorage w"
  "localStorageAvailable (snd (getBookingsFromStorage w)) = Some (usesLocalStorage w)"
  "inMemoryStore (snd (getBookingsFromStorage w)) = inMemoryStore w"
  "storageUsable (snd (getBookingsFromStorage w)) = storageUsable w"
  "itemStore (storedItem (snd (getBookingsFromStorage w))) = itemStore (storedItem w)"
proof -
  let ?w1 = "snd (isLocalStorageAvailable w)"
  have "localStorageAvailable (snd (getBookingsFromStorage w)) = Some (usesLocalStorage w) \<and>
     inMemoryStore (snd (getBookingsFromStorage w)) = inMemoryStore w \<and>
     storageUsable (snd (getBookingsFromStorage w)) = storageUsable w \<and>
     itemStore (storedItem (snd (getBookingsFromStorage w))) = itemStore (storedItem w)"
  proof (cases "readItem ?w1")
    case (Inl e)
    then show ?thesis
      by (simp add: getBookingsFromStorage_def case_prod_beta available_snd)
  next
    case (Inr r)
    from readItem_after [OF Inr] show ?thesis using Inr
      by (simp add: getBookingsFromStorage_def case_prod_beta available_snd)
  qed
  then show "localStorageAvailable (snd (getBookingsFromStorage w)) = Some (usesLocalStorage w)"
    "inMemoryStore (snd (getBookingsFromStorage w)) = inMemoryStore w"
    "storageUsable (snd (getBookingsFromStorage w)) = storageUsable w"
    "itemStore (storedItem (snd (getBookingsFromStorage w))) = itemStore (storedItem w)"
    by simp_all
  then show "usesLocalStorage (snd (getBookingsFromStorage w)) = usesLocalStorage w"
    by (simp add: usesLocalStorage_def)
qed

lemma loadAll_after_read: "loadAll (snd (getBookingsFromStorage w)) = loadAll w"
  by (simp add: loadAll_eq read_after)

lemma usesLocalStorage_console:
  "usesLocalStorage (w\<lparr>console := c\<rparr>) = usesLocalStorage w"
  by (cases "localStorageAvailable w") (simp_all add: usesLocalStorage_def)

lemma loadAll_console: "loadAll (w\<lparr>console := c\<rparr>) = loadAll w"
  by (simp add: loadAll_eq usesLocalStorage_console)

lemma write_after:
  "fst (saveBookingsToStorage accepted data w) \<Longrightarrow>
   loadAll (snd (saveBookingsToStorage accepted data w)) = data"
  "\<not> fst (saveBookingsToStorage accepted data w) \<Longrightarrow>
   loadAll (snd (saveBookingsToStorage accepted data w)) = loadAll w"
proof -
  let ?w1 = "snd (isLocalStorageAvailable w)"
  have u1: "usesLocalStorage ?w1 = usesLocalStorage w"
    by (simp add: usesLocalStorage_def available_snd)
  have v1: "loadAll ?w1 = loadAll w"
    by (simp add: loadAll_eq u1 available_snd)
  show "loadAll (snd (saveBookingsToStorage accepted data w)) = data"
    if "fst (saveBookingsToStorage accepted data w)"
    using that
    by (cases "usesLocalStorage w"; cases "storageUsable w"; cases accepted)
      (simp_all add: saveBookingsToStorage_def case_prod_beta available_fst available_snd
        loadAll_eq usesLocalStorage_def itemStore_def)
  show "loadAll (snd (saveBookingsToStorage accepted data w)) = loadAll w"
    if "\<not> fst (saveBookingsToStorage accepted data w)"
    using that v1
    by (cases "usesLocalStorage w"; cases "storageUsable w"; cases accepted)
      (simp_all add: saveBookingsToStorage_def case_prod_beta available_fst available_snd
        loadAll_console)
qed

lemma saveBooking_unfold:
  "saveBooking accepted b w =
     (let w1 = snd (getBookingsFromStorage w);
          data1 = upsert b (loadAll w);
          saved = saveBookingsToStorage accepted data1 w1
      in if \<not> fst saved then
           (\<lparr>success = False, message = ''Unable to save booking. Please try again.'',
             booking = None\<rparr>,
            (snd saved)\<lparr>console := console (snd saved)
                 @ [Error ''saveBooking failed because saveBookingsToStorage returned false'']\<rparr>)
         else
           (\<lparr>success = True,
             message = (if findIndex (\<lambda>x. bookingId x = bookingId b) (bookings (loadAll w)) \<noteq> None
                        then ''Booking updated successfully!''
                        else ''Booking created successfully!''),
             booking = Some b\<rparr>, snd saved))"
  unfolding saveBooking_def upsert_def idSuffix_def loadAll_def
  by (simp add: case_prod_beta Let_def)

lemma saveBooking_success:
  "success (fst (saveBooking accepted b w)) =
     fst (saveBookingsToStorage accepted (upsert b (loadAll w)) (snd (getBookingsFromStorage w)))"
  by (simp add: saveBooking_unfold Let_def)

lemma saveBooking_effect:
  "loadAll (snd (saveBooking accepted b w)) =
     (if success (fst (saveBooking accepted b w)) then upsert b (loadAll w) else loadAll w)"
  by (simp add: saveBooking_unfold Let_def write_after loadAll_console loadAll_after_read)

lemma deleteBooking_effect:
  "loadAll (snd (deleteBooking accepted bid w)) =
     (if success (fst (deleteBooking accepted bid w)) then remove bid (loadAll w) else loadAll w)"
proof -
  let ?w1 = "snd (getBookingsFromStorage w)"
  let ?saved = "saveBookingsToStorage accepted (remove bid (loadAll w)) ?w1"
  have d: "deleteBooking accepted bid w =
     (if length (bookings (remove bid (loadAll w))) = length (bookings (loadAll w)) then
        (\<lparr>success = False, message = ''Booking not found.''\<rparr>, ?w1)
      else (\<lparr>success = fst ?saved,
             message = (if fst ?saved then ''Booking cancelled successfully!''
                        else ''Unable to cancel booking.'')\<rparr>, snd ?saved))"
    by (simp add: deleteBooking_def remove_def case_prod_beta Let_def loadAll_def)
  show ?thesis
    unfolding d by (simp add: write_after loadAll_after_read)
qed

section \<open>Facts about generated identifiers\<close>

lemma digitChar_props:
  assumes "d < 10"
  shows "isDigit (digitChar d)" and "digitVal (digitChar d) = d"
    and "\<not> isSpace (digitChar d)" and "digitChar d \<noteq> CHR ''-''" and "digitChar d \<noteq> CHR ''+''"
proof -
  from assms have "d \<in> {0, 1, 2, 3, 4, 5, 6, 7, 8, 9}" by auto
  then show "isDigit (digitChar d)" and "digitVal (digitChar d) = d"
    and "\<not> isSpace (digitChar d)" and "digitChar d \<noteq> CHR ''-''" and "digitChar d \<noteq> CHR ''+''"
    by (auto simp: digitChar_def isDigit_def digitVal_def isSpace_def)
qed

lemma digitsVal_snoc: "digitsVal (ds @ [c]) = 10 * digitsVal ds + digitVal c"
  by (simp add: digitsVal_def)

lemma showNat_digits: "list_all isDigit (showNat n) \<and> digitsVal (showNat n) = n \<and> showNat n \<noteq> []"
proof (induction n rule: showNat.induct)
  case (1 n)
  show ?case
  proof (cases "n < 10")
    case True
    then show ?thesis
      using digitChar_props [of n] by (simp add: showNat.simps [of n] digitsVal_def)
  next
    case False
    have m: "n mod 10 < 10" by simp
    from False "1.IH" digitChar_props [OF m] show ?thesis
      by (simp add: showNat.simps [of n] digitsVal_snoc)
  qed
qed

lemma digitsVal_zeros: "digitsVal (replicate k CHR ''0'' @ ds) = digitsVal ds"
proof -
  have "foldl (\<lambda>acc c. 10 * acc + digitVal c) 0 (replicate k CHR ''0'') = 0"
    by (induction k) (simp_all add: digitVal_def)
  then show ?thesis by (simp add: digitsVal_def)
qed

lemma parseInt_digits:
  assumes "list_all isDigit ds" and "ds \<noteq> []"
  shows "parseInt ds = Some (int (digitsVal ds))"
proof -
  from assms obtain c cs where ds: "ds = c # cs" by (cases ds) auto
  with assms have c: "isDigit c" by simp
  then have ns: "\<not> isSpace c" and nm: "c \<noteq> CHR ''-''" and np: "c \<noteq> CHR ''+''"
    by (auto simp: isDigit_def isSpace_def)
  have tw: "takeWhile isDigit ds = ds"
    using assms(1) by (simp add: takeWhile_eq_all_conv list_all_iff)
  have dw: "dropWhile isSpace ds = ds"
    using ns by (simp add: ds)
  show ?thesis
    unfolding parseInt_def dw Let_def
    using nm np tw assms(2) by (simp add: ds)
qed

lemma parseInt_padded:
  "parseInt (padStart 6 CHR ''0'' (showInt (int n))) = Some (int n)"
proof -
  let ?s = "padStart 6 CHR ''0'' (showInt (int n))"
  have s: "?s = replicate (6 - length (showNat n)) CHR ''0'' @ showNat n"
    by (simp add: padStart_def showInt_def)
  have z: "isDigit CHR ''0''" by (simp add: isDigit_def)
  have "list_all isDigit ?s" "?s \<noteq> []"
    unfolding s using showNat_digits [of n] z by (auto simp: list_all_iff)
  then have "parseInt ?s = Some (int (digitsVal ?s))" by (rule parseInt_digits)
  then show ?thesis
    unfolding s using showNat_digits [of n] by (simp add: digitsVal_zeros)
qed

lemma padded_no_dash: "CHR ''-'' \<notin> set (padStart 6 CHR ''0'' (showInt (int n)))"
proof -
  have "\<forall>c \<in> set (showNat n). isDigit c"
    using showNat_digits [of n] by (simp add: list_all_iff)
  moreover have "\<not> isDigit CHR ''-''" by (simp add: isDigit_def)
  ultimately have "CHR ''-'' \<notin> set (showNat n)" by blast
  then show ?thesis by (auto simp: padStart_def showInt_def)
qed

lemma splitOn_length: "length (splitOn c s) = Suc (length (filter (\<lambda>x. x = c) s))"
  by (induction s) (auto split: list.splits)

lemma splitOn_none: "c \<notin> set s \<Longrightarrow> splitOn c s = [s]"
  by (induction s) auto

lemma last_splitOn: "c \<notin> set ys \<Longrightarrow> last (splitOn c (xs @ c # ys)) = ys"
proof (induction xs)
  case Nil
  then show ?case by (simp add: splitOn_none)
next
  case (Cons x xs)
  have len: "length (splitOn c (xs @ c # ys)) \<ge> 2"
    by (simp add: splitOn_length)
  then obtain seg seg' segs where sp: "splitOn c (xs @ c # ys) = seg # seg' # segs"
    by (cases "splitOn c (xs @ c # ys)"; cases "tl (splitOn c (xs @ c # ys))") auto
  with Cons show ?case by auto
qed

lemma idSuffix_generated:
  "idSuffix (pre @ ''-'' @ padStart 6 CHR ''0'' (showInt (int n))) = Some (int n)"
  unfolding idSuffix_def
  using last_splitOn [OF padded_no_dash, of pre n] by (simp add: parseInt_padded)

section \<open>Facts about the store invariant\<close>

lemma findIndex_Some: "findIndex p xs = Some i \<Longrightarrow> i < length xs \<and> p (xs ! i)"
  by (induction xs arbitrary: i) (auto split: if_splits option.splits)

lemma findIndex_None: "findIndex p xs = None \<longleftrightarrow> (\<forall>x \<in> set xs. \<not> p x)"
  by (induction xs) (auto split: option.splits)

lemma find_update: "p b \<Longrightarrow> findIndex p xs = Some i \<Longrightarrow> find p (xs[i := b]) = Some b"
  by (induction xs arbitrary: i) (auto split: if_splits option.splits)

lemma find_append: "p b \<Longrightarrow> findIndex p xs = None \<Longrightarrow> find p (xs @ [b]) = Some b"
  by (induction xs) (auto split: if_splits option.splits)

lemma upsert_find:
  "find (\<lambda>x. bookingId x = bookingId b) (bookings (upsert b data)) = Some b"
proof (cases "findIndex (\<lambda>x. bookingId x = bookingId b) (bookings data)")
  case None
  then show ?thesis
    by (simp add: upsert_def Let_def find_append split: option.splits)
next
  case (Some i)
  then show ?thesis
    by (simp add: upsert_def find_update)
qed

lemma upsert_last_mono: "lastBookingNumber data \<le> lastBookingNumber (upsert b data)"
  by (simp add: upsert_def Let_def split: option.splits)

lemma store_ok_iff:
  "store_ok data \<longleftrightarrow>
     0 \<le> lastBookingNumber data \<and>
     (\<forall>x \<in> set (bookings data). \<forall>k. idSuffix (bookingId x) = Some k \<longrightarrow> k \<le> lastBookingNumber data)"
  by (auto simp: store_ok_def list_all_iff split: option.splits)

lemma upsert_ok:
  assumes "store_ok data"
  shows "store_ok (upsert b data)"
proof (cases "findIndex (\<lambda>x. bookingId x = bookingId b) (bookings data)")
  case None
  then show ?thesis
    using assms
    by (auto simp: upsert_def Let_def store_ok_iff split: option.splits)
next
  case (Some i)
  from findIndex_Some [OF Some] have i: "i < length (bookings data)"
    and same: "bookingId (bookings data ! i) = bookingId b" by simp_all
  have old: "bookings data ! i \<in> set (bookings data)" using i by simp
  have u: "upsert b data = data\<lparr>bookings := (bookings data)[i := b]\<rparr>"
    using Some by (simp add: upsert_def)
  have "k \<le> lastBookingNumber data"
    if x: "x \<in> set ((bookings data)[i := b])" and k: "idSuffix (bookingId x) = Some k" for x k
  proof -
    from x set_update_subset_insert [of "bookings data" i b]
    have "x \<in> set (bookings data) \<or> x = b" by auto
    then show ?thesis
    proof
      assume "x \<in> set (bookings data)"
      with assms k show ?thesis by (auto simp: store_ok_iff)
    next
      assume "x = b"
      with k same have "idSuffix (bookingId (bookings data ! i)) = Some k" by simp
      with assms old show ?thesis by (auto simp: store_ok_iff)
    qed
  qed
  then show ?thesis
    using assms by (simp add: u store_ok_iff)
qed

lemma remove_last: "lastBookingNumber (remove bid data) = lastBookingNumber data"
  by (simp add: remove_def)

lemma remove_ok: "store_ok data \<Longrightarrow> store_ok (remove bid data)"
  by (auto simp: remove_def store_ok_iff)

lemma perform_mono: "lastBookingNumber (loadAll w) \<le> lastBookingNumber (loadAll (perform op w))"
  by (cases op) (simp_all add: saveBooking_effect deleteBooking_effect upsert_last_mono remove_last)

lemma perform_ok: "store_ok (loadAll w) \<Longrightarrow> store_ok (loadAll (perform op w))"
  by (cases op) (simp_all add: saveBooking_effect deleteBooking_effect upsert_ok remove_ok)

lemma performAll_mono:
  "lastBookingNumber (loadAll w) \<le> lastBookingNumber (loadAll (performAll ops w))"
proof (induction ops arbitrary: w)
  case Nil
  then show ?case by (simp add: performAll_def)
next
  case (Cons op ops)
  have "lastBookingNumber (loadAll w) \<le> lastBookingNumber (loadAll (perform op w))"
    by (rule perform_mono)
  also have "\<dots> \<le> lastBookingNumber (loadAll (performAll ops (perform op w)))"
    by (rule Cons.IH)
  finally show ?case by (simp add: performAll_def)
qed

lemma performAll_ok:
  "store_ok (loadAll w) \<Longrightarrow> store_ok (loadAll (performAll ops w))"
proof (induction ops arbitrary: w)
  case Nil
  then show ?case by (simp add: performAll_def)
next
  case (Cons op ops)
  from Cons.prems have "store_ok (loadAll (perform op w))" by (rule perform_ok)
  then have "store_ok (loadAll (performAll ops (perform op w)))" by (rule Cons.IH)
  then show ?case by (simp add: performAll_def)
qed

lemma generateBookingId_eq:
  "fst (generateBookingId d w) =
     (BOOKING_ID_PREFIX @ ''-'' @ filter (\<lambda>c. c \<noteq> CHR ''-'') d) @ ''-''
       @ padStart 6 CHR ''0'' (showInt (lastBookingNumber (loadAll w) + 1))"
  "loadAll (snd (generateBookingId d w)) = loadAll w"
  by (simp_all add: generateBookingId_def getNextBookingNumber_def case_prod_beta Let_def
      loadAll_def [symmetric] loadAll_after_read)

lemma generated_suffix:
  assumes "0 \<le> lastBookingNumber (loadAll w)"
  shows "idSuffix (fst (generateBookingId d w)) = Some (lastBookingNumber (loadAll w) + 1)"
proof -
  from assms have n: "lastBookingNumber (loadAll w) + 1 = int (nat (lastBookingNumber (loadAll w) + 1))"
    by simp
  show ?thesis
    unfolding generateBookingId_eq
    by (subst n, subst (2) n) (rule idSuffix_generated)
qed

lemma fresh_id_not_found:
  assumes "store_ok data" and "idSuffix bid = Some (lastBookingNumber data + 1)"
  shows "findIndex (\<lambda>x. bookingId x = bid) (bookings data) = None"
proof -
  have "bookingId x \<noteq> bid" if "x \<in> set (bookings data)" for x
  proof
    assume "bookingId x = bid"
    with assms(2) have "idSuffix (bookingId x) = Some (lastBookingNumber data + 1)" by simp
    with assms(1) that show False by (auto simp: store_ok_iff)
  qed
  then show ?thesis by (simp add: findIndex_None)
qed

lemma upsert_fresh_last:
  assumes "store_ok data" and "idSuffix (bookingId b) = Some (lastBookingNumber data + 1)"
  shows "lastBookingNumber (upsert b data) = lastBookingNumber data + 1"
  using fresh_id_not_found [OF assms] assms(2) by (simp add: upsert_def Let_def)

lemma write_success:
  "fst (saveBookingsToStorage accepted data w)
     = (\<not> usesLocalStorage w \<or> (storageUsable w \<and> accepted))"
  by (cases "usesLocalStorage w"; cases "storageUsable w"; cases accepted)
    (simp_all add: saveBookingsToStorage_def case_prod_beta available_fst available_snd)

lemma example_first_id:
  "fst (generateBookingId ''2025-06-15'' (initialWorld True)) = ''BK-20250615-000001''"
  by code_simp

lemma example_initial_ok: "store_ok (loadAll (initialWorld True))"
  by code_simp

lemma example_first_saved:
  "success (fst (saveBooking True (exampleBooking\<lparr>bookingId := ''BK-20250615-000001''\<rparr>)
      (snd (generateBookingId ''2025-06-15'' (initialWorld True)))))"
  by code_simp

lemma example_later_id:
  "fst (generateBookingId ''2025-06-16''
       (performAll [Delete True ''BK-20250615-000001'']
         (snd (saveBooking True (exampleBooking\<lparr>bookingId := ''BK-20250615-000001''\<rparr>)
            (snd (generateBookingId ''2025-06-15'' (initialWorld True)))))))
     = ''BK-20250616-000002''"
  by code_simp

lemma example_deleted:
  "bookings (loadAll
       (performAll [Delete True ''BK-20250615-000001'']
         (snd (saveBooking True (exampleBooking\<lparr>bookingId := ''BK-20250615-000001''\<rparr>)
            (snd (generateBookingId ''2025-06-15'' (initialWorld True))))))) = []"
  by code_simp

section \<open>Facts about the boarding sequence\<close>

lemma Math_max_Max: "xs \<noteq> [] \<Longrightarrow> Math_max xs = Max (set xs)"
proof (induction xs)
  case Nil
  then show ?case by simp
next
  case (Cons x xs)
  show ?case
  proof (cases "xs = []")
    case True
    then show ?thesis by (simp add: Math_max_def)
  next
    case False
    with Cons.IH have "Math_max xs = Max (set xs)" by simp
    with False show ?thesis by (simp add: Math_max_def)
  qed
qed

lemma findFarthestRow_spec: "findFarthestRow ss = spec_farthestRow ss"
  by (simp add: findFarthestRow_def spec_farthestRow_def Math_max_Max)

lemma countSeatsInRow_spec:
  "countSeatsInRow ss (spec_farthestRow ss) = spec_seatsInFarthestRow ss"
  by (simp add: countSeatsInRow_def spec_seatsInFarthestRow_def)

lemma withMetadata_fields:
  "bookingId (withMetadata b) = bookingId b"
  "seats (withMetadata b) = seats b"
  "farthestRow (withMetadata b) = spec_farthestRow (seats b)"
  "seatsInFarthestRow (withMetadata b) = spec_seatsInFarthestRow (seats b)"
  "totalSeats (withMetadata b) = length (seats b)"
  "booking.truncate (withMetadata b) = b"
  by (simp_all add: withMetadata_def booking.extend_def booking.truncate_def
      findFarthestRow_spec countSeatsInRow_spec)

lemma spec_before_trans: "spec_before a b \<Longrightarrow> spec_before b c \<Longrightarrow> spec_before a c"
  unfolding spec_before_def by (metis less_trans order_trans)

lemma spec_before_total: "\<not> spec_before a b \<Longrightarrow> spec_before b a"
  unfolding spec_before_def by (metis linorder_less_linear linorder_le_cases)

lemma compareBookings_spec:
  assumes "(localeCompare (bookingId a) (bookingId b) < 0 \<longleftrightarrow> bookingId a < bookingId b) \<and>
           (localeCompare (bookingId a) (bookingId b) = 0 \<longleftrightarrow> bookingId a = bookingId b)"
  shows "compareBookings localeCompare (withMetadata a) (withMetadata b) \<le> 0
           \<longleftrightarrow> spec_before (withMetadata a) (withMetadata b)"
proof -
  have t: "spec_tuple (withMetadata x) =
      (spec_farthestRow (seats x), spec_seatsInFarthestRow (seats x), length (seats x))" for x
    by (simp add: spec_tuple_def withMetadata_fields)
  have l: "localeCompare (bookingId a) (bookingId b) \<le> 0 \<longleftrightarrow> bookingId a \<le> bookingId b"
    using assms by (auto simp: order_le_less)
  show ?thesis
    unfolding compareBookings_def spec_before_def t
    by (auto simp: withMetadata_fields l)
qed

lemma set_insertBy: "set (insertBy cmp x ys) = insert x (set ys)"
  by (induction ys) auto

lemma mset_insertBy: "mset (insertBy cmp x ys) = add_mset x (mset ys)"
  by (induction ys) auto

lemma mset_sortBy: "mset (sortBy cmp xs) = mset xs"
  by (induction xs) (simp_all add: sortBy_def mset_insertBy)

lemma set_sortBy: "set (sortBy cmp xs) = set xs"
  using mset_sortBy [of cmp xs] by (metis set_mset_mset)

lemma sorted_insertBy:
  assumes "sorted_wrt P ys"
    and "\<forall>y \<in> set ys. (cmp x y \<le> 0 \<longleftrightarrow> P x y) \<and> (\<not> P x y \<longrightarrow> P y x)"
    and "\<And>a b c. P a b \<Longrightarrow> P b c \<Longrightarrow> P a c"
  shows "sorted_wrt P (insertBy cmp x ys)"
  using assms(1,2)
proof (induction ys)
  case Nil
  then show ?case by simp
next
  case (Cons y ys)
  show ?case
  proof (cases "cmp x y \<le> 0")
    case True
    with Cons.prems have xy: "P x y" by simp
    have "P x z" if "z \<in> set ys" for z
      using Cons.prems(1) that assms(3) [OF xy] by auto
    with True xy Cons.prems(1) show ?thesis by auto
  next
    case False
    with Cons.prems have yx: "P y x" by simp
    have "sorted_wrt P (insertBy cmp x ys)"
      using Cons.IH Cons.prems by simp
    with False yx Cons.prems(1) show ?thesis
      by (auto simp: set_insertBy)
  qed
qed

lemma sorted_sortBy:
  assumes "\<forall>x \<in> set xs. \<forall>y \<in> set xs. (cmp x y \<le> 0 \<longleftrightarrow> P x y) \<and> (\<not> P x y \<longrightarrow> P y x)"
    and "\<And>a b c. P a b \<Longrightarrow> P b c \<Longrightarrow> P a c"
  shows "sorted_wrt P (sortBy cmp xs)"
  using assms(1)
proof (induction xs)
  case Nil
  then show ?case by (simp add: sortBy_def)
next
  case (Cons x xs)
  have s: "sortBy cmp (x # xs) = insertBy cmp x (sortBy cmp xs)"
    by (simp add: sortBy_def)
  have "sorted_wrt P (sortBy cmp xs)"
    using Cons.IH Cons.prems by simp
  moreover have "\<forall>y \<in> set (sortBy cmp xs). (cmp x y \<le> 0 \<longleftrightarrow> P x y) \<and> (\<not> P x y \<longrightarrow> P y x)"
    using Cons.prems by (simp add: set_sortBy)
  ultimately show ?case
    unfolding s using assms(2) by (rule sorted_insertBy)
qed

lemma lexicographic_onD:
  "lexicographic_on lc ids \<Longrightarrow> x \<in> set ids \<Longrightarrow> y \<in> set ids \<Longrightarrow>
     (lc x y < 0 \<longleftrightarrow> x < y) \<and> (lc x y = 0 \<longleftrightarrow> x = y)"
  by (simp add: lexicographic_on_def list_all_iff)

lemma sorted_metadata:
  assumes "lexicographic_on localeCompare (map bookingId bs)"
  shows "sorted_wrt spec_before (sortBy (compareBookings localeCompare) (map withMetadata bs))"
proof (rule sorted_sortBy)
  show "\<forall>x \<in> set (map withMetadata bs). \<forall>y \<in> set (map withMetadata bs).
      (compareBookings localeCompare x y \<le> 0 \<longleftrightarrow> spec_before x y) \<and>
      (\<not> spec_before x y \<longrightarrow> spec_before y x)"
  proof (intro ballI)
    fix x y
    assume "x \<in> set (map withMetadata bs)" and "y \<in> set (map withMetadata bs)"
    then obtain a b where a: "a \<in> set bs" "x = withMetadata a" and b: "b \<in> set bs" "y = withMetadata b"
      by auto
    from a b have "bookingId a \<in> set (map bookingId bs)" "bookingId b \<in> set (map bookingId bs)"
      by simp_all
    with assms have "(localeCompare (bookingId a) (bookingId b) < 0 \<longleftrightarrow> bookingId a < bookingId b) \<and>
           (localeCompare (bookingId a) (bookingId b) = 0 \<longleftrightarrow> bookingId a = bookingId b)"
      by (rule lexicographic_onD)
    then have "compareBookings localeCompare x y \<le> 0 \<longleftrightarrow> spec_before x y"
      unfolding a b by (rule compareBookings_spec)
    then show "(compareBookings localeCompare x y \<le> 0 \<longleftrightarrow> spec_before x y) \<and>
      (\<not> spec_before x y \<longrightarrow> spec_before y x)"
      using spec_before_total by blast
  qed
next
  fix a b c :: booking_meta
  assume "spec_before a b" "spec_before b c"
  then show "spec_before a c" by (rule spec_before_trans)
qed

lemma annotate_fields:
  "bookingId (annotate (i, m)) = bookingId m"
  "seats (annotate (i, m)) = seats m"
  "farthestRow (annotate (i, m)) = farthestRow m"
  "seatsInFarthestRow (annotate (i, m)) = seatsInFarthestRow m"
  "totalSeats (annotate (i, m)) = totalSeats m"
  "sequenceNumber (annotate (i, m)) = i + 1"
  "unsequenced (annotate (i, m)) = booking.truncate m"
  by (simp_all add: annotate_def booking_meta.extend_def unsequenced_def booking.truncate_def)

lemma sequence_eq:
  "calculateOptimalBoardingSequence localeCompare bs =
     map annotate (enumerate 0 (sortBy (compareBookings localeCompare) (map withMetadata bs)))"
  by (cases "bs = []")
    (simp_all add: calculateOptimalBoardingSequence_def Let_def annotate_def case_prod_beta
      sortBy_def)

lemma example_collation: "lexicographic_on lexCompare (map bookingId exampleBookings)"
  by code_simp

lemma example_sequence:
  "map bookingId (calculateOptimalBoardingSequence lexCompare exampleBookings) =
     [''BK-20250615-000004'', ''BK-20250615-000003'', ''BK-20250615-000002'',
      ''BK-20250615-000001'']"
  "map farthestRow (calculateOptimalBoardingSequence lexCompare exampleBookings) = [15, 10, 10, 3]"
  "map seatsInFarthestRow (calculateOptimalBoardingSequence lexCompare exampleBookings)
     = [1, 2, 1, 1]"
  by code_simp+

section \<open>Claims\<close>

text \<open>
  Claim C5. For every number of selected seats and every number of seats the mobile number
  has already booked, \<open>checkSeatLimitForMobile\<close> is valid exactly when the two add up to at
  most 6; when it is not, the error message reports the already-booked count and the
  remaining allowance \<open>max (6 - alreadyBooked) 0\<close>. The claim's range (at least one selected
  seat, a non-negative already-booked count) is a special case.
\<close>

theorem checkSeatLimitForMobile_cap:
  "(isValid (checkSeatLimitForMobile m d s a) \<longleftrightarrow> s + a \<le> 6) \<and>
   (\<not> isValid (checkSeatLimitForMobile m d s a) \<longrightarrow>
      error (checkSeatLimitForMobile m d s a) =
        Some (''This mobile number has already booked '' @ showInt a
              @ '' seats for this date. You can book '' @ showInt (max (6 - a) 0)
              @ '' more seats.'')) \<and>
   (isValid (checkSeatLimitForMobile m d s a) \<longrightarrow>
      error (checkSeatLimitForMobile m d s a) = None)"
proof -
  have r: "(if 6 - a > 0 then 6 - a else 0) = max (6 - a) 0" by simp
  show ?thesis
    unfolding checkSeatLimitForMobile_def Let_def MAX_SEATS_PER_BOOKING_def r
    by (simp add: same_mobile_limit_message del: replaceFirst.simps)
qed

theorem checkSeatLimitForMobile_cap_witness:
  "isValid (checkSeatLimitForMobile ''9876543210'' ''2025-06-15'' 2 4) \<and>
   \<not> isValid (checkSeatLimitForMobile ''9876543210'' ''2025-06-15'' 3 4) \<and>
   error (checkSeatLimitForMobile ''9876543210'' ''2025-06-15'' 2 4) = None \<and>
   error (checkSeatLimitForMobile ''9876543210'' ''2025-06-15'' 3 4) =
     Some ''This mobile number has already booked 4 seats for this date. You can book 2 more seats.''"
proof -
  have four: "showInt 4 = ''4''" and two: "showInt 2 = ''2''"
    by (simp_all add: showInt_def showNat.simps digitChar_def)
  show ?thesis
    using checkSeatLimitForMobile_cap [of "''9876543210''" "''2025-06-15''" 2 4]
      checkSeatLimitForMobile_cap [of "''9876543210''" "''2025-06-15''" 3 4]
    by (simp add: four two)
qed

text \<open>
  Claim C2. For a list of \<open>n \<ge> 1\<close> bookings, \<open>calculateNaturalOrderTime\<close> is \<open>n * 60\<close>,
  the optimal time of \<open>calculateBoardingTime\<close> is 60, and \<open>calculateTimeSavings\<close> of the
  two gives \<open>n * 60 - 60\<close> savings seconds and, as its percentage, the decimal text of
  \<open>round (savings / (n * 60) * 100)\<close>. The quotient is taken exactly; on a tie
  \<open>toFixed\<close> takes the larger integer, as \<open>round\<close> does.
\<close>

theorem boarding_time_savings:
  assumes "bs \<noteq> []"
  shows "calculateNaturalOrderTime bs = int (length bs) * 60 \<and>
    optimalTimeSeconds (calculateBoardingTime bs) = 60 \<and>
    savingsSeconds (calculateTimeSavings (calculateNaturalOrderTime bs)
        (optimalTimeSeconds (calculateBoardingTime bs)))
      = int (length bs) * 60 - 60 \<and>
    savingsPercentage (calculateTimeSavings (calculateNaturalOrderTime bs)
        (optimalTimeSeconds (calculateBoardingTime bs)))
      = showNat (nat (round ((of_int (int (length bs) * 60 - 60) :: rat)
                        / of_int (int (length bs) * 60) * 100)))"
proof -
  from assms have pos: "0 < length bs" by simp
  have n: "calculateNaturalOrderTime bs = int (length bs) * 60"
    using assms by (simp add: calculateNaturalOrderTime_def)
  have o: "optimalTimeSeconds (calculateBoardingTime bs) = 60"
    using assms by (simp add: calculateBoardingTime_def Let_def)
  have nz: "int (length bs) * 60 \<noteq> 0" using pos by simp
  have "1 \<le> int (length bs)" using pos by linarith
  then have "0 \<le> int (length bs) * 60 - 60" by simp
  then have a: "(0 :: rat) \<le> of_int (int (length bs) * 60 - 60)"
    by (simp only: of_int_0_le_iff)
  have "0 < int (length bs) * 60" using pos by simp
  then have b: "(0 :: rat) < of_int (int (length bs) * 60)"
    by (simp only: of_int_0_less_iff)
  have "(0 :: rat) \<le> of_int (int (length bs) * 60 - 60)
      / of_int (int (length bs) * 60)"
    using a b by (rule divide_nonneg_pos)
  then have ge: "(0 :: rat) \<le> of_int (int (length bs) * 60 - 60)
      / of_int (int (length bs) * 60) * 100"
    by (rule mult_nonneg_nonneg) simp
  have pct: "savingsPercentage (calculateTimeSavings (int (length bs) * 60) 60)
      = showNat (nat (round ((of_int (int (length bs) * 60 - 60) :: rat)
                        / of_int (int (length bs) * 60) * 100)))"
    by (simp only: savingsPercentage_eq [OF nz] toFixed0_nonneg [OF ge])
  show ?thesis
    unfolding n o by (simp only: savingsSeconds_eq pct simp_thms)
qed

theorem boarding_time_savings_witness:
  "[1, 2, 3, 4, 5 :: nat] \<noteq> [] \<and>
   calculateNaturalOrderTime [1, 2, 3, 4, 5 :: nat] = 300 \<and>
   optimalTimeSeconds (calculateBoardingTime [1, 2, 3, 4, 5 :: nat]) = 60 \<and>
   savingsSeconds (calculateTimeSavings 300 60) = 240 \<and>
   savingsPercentage (calculateTimeSavings 300 60) = ''80''"
proof -
  have ne: "[1, 2, 3, 4, 5 :: nat] \<noteq> []" by simp
  have r: "round ((240 :: rat) / 300 * 100) = 80" by simp
  have s: "showNat 80 = ''80''" by (simp add: showNat.simps digitChar_def)
  have n: "calculateNaturalOrderTime [1, 2, 3, 4, 5 :: nat] = 300"
    by (simp add: calculateNaturalOrderTime_def)
  have o: "optimalTimeSeconds (calculateBoardingTime [1, 2, 3, 4, 5 :: nat]) = 60"
    by (simp add: calculateBoardingTime_def Let_def)
  show ?thesis
    using boarding_time_savings [OF ne] unfolding n o by (simp add: r s)
qed

text \<open>
  Claim C10. For the empty booking list \<open>calculateNaturalOrderTime\<close> and
  \<open>calculateBoardingTime\<close> both give 0; \<open>calculateTimeSavings\<close> of the two zeros gives
  0 savings seconds and divides 0 by 0 without a guard, so its percentage is the text
  \<open>NaN\<close>, not a number.
\<close>

theorem empty_list_savings_nan:
  "calculateNaturalOrderTime ([] :: 'b list) = 0 \<and>
   optimalTimeSeconds (calculateBoardingTime ([] :: 'b list)) = 0 \<and>
   savingsSeconds (calculateTimeSavings (calculateNaturalOrderTime ([] :: 'b list))
       (optimalTimeSeconds (calculateBoardingTime ([] :: 'b list)))) = 0 \<and>
   savingsPercentage (calculateTimeSavings (calculateNaturalOrderTime ([] :: 'b list))
       (optimalTimeSeconds (calculateBoardingTime ([] :: 'b list)))) = ''NaN''"
  by (simp add: calculateNaturalOrderTime_def calculateBoardingTime_def
      calculateTimeSavings_def jsDivide_def jsRem_def)

text \<open>
  Claim C3, as the code has it. The mobile, travel-date and seat-count rules are checked
  independently, each leaving its message under its own field. The duplicate-seat check
  and the per-mobile cap are behind the guard \<open>Object.keys(errors).length === 0\<close>: they
  run only when the three rules all passed. So when one of the three fails, the entry for
  \<open>seats\<close> is what the seat-count rule alone gives, whatever seats are booked already
  and whatever the mobile number has booked.
\<close>

theorem validateBookingForm_field_errors:
  "let r = fst (validateBookingForm clk fd booked n);
       mv = validateMobileNumber (formData.mobileNumber fd);
       dv = validateTravelDate clk (formData.travelDate fd);
       sv = validateSeatSelection (formData.seats fd) MAX_SEATS_PER_BOOKING
   in errors r ''mobileNumber'' = (if isValid mv then None else Some (error mv)) \<and>
      errors r ''travelDate'' = (if isValid dv then None else Some (error dv)) \<and>
      (\<not> (isValid mv \<and> isValid dv \<and> isValid sv) \<longrightarrow>
         errors r ''seats'' = (if isValid sv then None else Some (error sv)))"
proof (cases "isValid (validateMobileNumber (formData.mobileNumber fd)) \<and>
              isValid (validateTravelDate clk (formData.travelDate fd)) \<and>
              isValid (validateSeatSelection (formData.seats fd) MAX_SEATS_PER_BOOKING)")
  case True
  then show ?thesis
    by (simp add: errors_when_basic_passes Let_def)
next
  case False
  then show ?thesis
    unfolding Let_def errors_when_basic_fails [OF False]
    by (simp add: basicErrors_def)
qed

theorem validateBookingForm_field_errors_witness:
  "\<not> isValid (validateMobileNumber (formData.mobileNumber candidateBadMobile)) \<and>
   isValid (validateSeatSelection (formData.seats candidateBadMobile) MAX_SEATS_PER_BOOKING) \<and>
   errors (fst (validateBookingForm exampleClock candidateBadMobile [''A5''] 0)) ''mobileNumber''
     = Some (Some ''Mobile number must be exactly 10 digits.'') \<and>
   errors (fst (validateBookingForm exampleClock candidateBadMobile [''A5''] 0)) ''travelDate''
     = None \<and>
   errors (fst (validateBookingForm exampleClock candidateBadMobile [''A5''] 0)) ''seats'' = None"
proof -
  have e: "error (validateMobileNumber ''12345'') = Some ''Mobile number must be exactly 10 digits.''"
    by (simp add: validateMobileNumber_def Let_def isSpace_def)
  show ?thesis
    using validateBookingForm_field_errors [of exampleClock candidateBadMobile "[''A5'']" 0]
    by (simp add: Let_def candidateBadMobile_def example_mobiles example_date
        example_seat_selection e)
qed

text \<open>
  Claim C3 as stated fails: this candidate breaks the mobile rule, the duplicate-seat rule
  and the daily cap, and the errors have an entry for the mobile field and none for the
  seats.
\<close>

theorem mobile_and_duplicate_counterexample:
  "\<not> isValid (validateMobileNumber (formData.mobileNumber candidateBadMobile)) \<and>
   \<not> isValid (checkDuplicateSeats (formData.seats candidateBadMobile) [''A5'']) \<and>
   \<not> isValid (checkSeatLimitForMobile (formData.mobileNumber candidateBadMobile)
        (formData.travelDate candidateBadMobile) 1 6) \<and>
   errors (fst (validateBookingForm exampleClock candidateBadMobile [''A5''] 6)) ''mobileNumber''
     \<noteq> None \<and>
   errors (fst (validateBookingForm exampleClock candidateBadMobile [''A5''] 6)) ''seats'' = None"
proof -
  have bad: "\<not> (isValid (validateMobileNumber (formData.mobileNumber candidateBadMobile)) \<and>
      isValid (validateTravelDate exampleClock (formData.travelDate candidateBadMobile)) \<and>
      isValid (validateSeatSelection (formData.seats candidateBadMobile) MAX_SEATS_PER_BOOKING))"
    by (simp add: candidateBadMobile_def example_mobiles)
  show ?thesis
    unfolding errors_when_basic_fails [OF bad]
    by (simp add: basicErrors_def candidateBadMobile_def example_mobiles example_date
        example_seat_selection checkDuplicateSeats_def checkSeatLimitForMobile_def Let_def)
      (simp add: MAX_SEATS_PER_BOOKING_def)
qed

text \<open>
  Claim C4. For a candidate whose mobile number, travel date and seat count are valid and
  whose seats fit the daily cap: without a \<open>bookingId\<close> validation fails with a seats
  error exactly when a selected seat is among the booked seats; with one, the seats of the
  booking being edited (\<open>currentSeats\<close>) are taken out of the booked seats first, so
  selecting only one's own current seats succeeds and selecting a booked seat that is not
  one's own fails.
\<close>

theorem duplicate_seat_rule:
  assumes "isValid (validateMobileNumber (formData.mobileNumber fd))"
    and "isValid (validateTravelDate clk (formData.travelDate fd))"
    and "isValid (validateSeatSelection (formData.seats fd) MAX_SEATS_PER_BOOKING)"
    and "int (length (formData.seats fd)) + n \<le> 6"
  shows "let r = fst (validateBookingForm clk fd booked n) in
    (\<not> truthy (formData.bookingId fd) \<longrightarrow>
       ((errors r ''seats'' \<noteq> None \<and> \<not> formIsValid r)
          \<longleftrightarrow> (\<exists>s \<in> set (formData.seats fd). s \<in> set booked)) \<and>
       (formIsValid r \<longleftrightarrow> \<not> (\<exists>s \<in> set (formData.seats fd). s \<in> set booked))) \<and>
    (truthy (formData.bookingId fd) \<longrightarrow>
       ((errors r ''seats'' \<noteq> None \<and> \<not> formIsValid r)
          \<longleftrightarrow> (\<exists>s \<in> set (formData.seats fd). s \<in> set booked \<and> \<not> ownSeat fd s)) \<and>
       (formIsValid r
          \<longleftrightarrow> \<not> (\<exists>s \<in> set (formData.seats fd). s \<in> set booked \<and> \<not> ownSeat fd s)) \<and>
       ((\<forall>s \<in> set (formData.seats fd). ownSeat fd s) \<longrightarrow> formIsValid r))"
proof -
  let ?r = "fst (validateBookingForm clk fd booked n)"
  let ?conflict = "\<exists>s \<in> set (formData.seats fd). s \<in> set (conflictSeats fd booked)"
  have e: "errors ?r ''seats'' \<noteq> None \<longleftrightarrow> ?conflict"
    by (simp add: errors_all_rules [OF assms])
  have v: "formIsValid ?r \<longleftrightarrow> \<not> ?conflict"
    by (simp add: formIsValid_eq errors_all_rules [OF assms])
  show ?thesis
    unfolding Let_def e v by (auto simp: conflictSeats_member)
qed

theorem duplicate_seat_rule_witness:
  "isValid (validateMobileNumber (formData.mobileNumber candidateNew)) \<and>
   isValid (validateTravelDate exampleClock (formData.travelDate candidateNew)) \<and>
   isValid (validateSeatSelection (formData.seats candidateNew) MAX_SEATS_PER_BOOKING) \<and>
   int (length (formData.seats candidateNew)) + 0 \<le> 6 \<and>
   \<not> truthy (formData.bookingId candidateNew) \<and>
   \<not> formIsValid (fst (validateBookingForm exampleClock candidateNew [''A5''] 0)) \<and>
   errors (fst (validateBookingForm exampleClock candidateNew [''A5''] 0)) ''seats'' \<noteq> None \<and>
   formIsValid (fst (validateBookingForm exampleClock candidateNew [''B2''] 0)) \<and>
   isValid (validateMobileNumber (formData.mobileNumber candidateEdit)) \<and>
   isValid (validateTravelDate exampleClock (formData.travelDate candidateEdit)) \<and>
   isValid (validateSeatSelection (formData.seats candidateEdit) MAX_SEATS_PER_BOOKING) \<and>
   int (length (formData.seats candidateEdit)) + 0 \<le> 6 \<and>
   truthy (formData.bookingId candidateEdit) \<and>
   formIsValid (fst (validateBookingForm exampleClock candidateEdit [''A5''] 0))"
proof -
  have n: "isValid (validateMobileNumber (formData.mobileNumber candidateNew))"
    "isValid (validateTravelDate exampleClock (formData.travelDate candidateNew))"
    "isValid (validateSeatSelection (formData.seats candidateNew) MAX_SEATS_PER_BOOKING)"
    "int (length (formData.seats candidateNew)) + 0 \<le> 6"
    by (simp_all add: candidateNew_def example_mobiles example_date example_seat_selection)
  have e: "isValid (validateMobileNumber (formData.mobileNumber candidateEdit))"
    "isValid (validateTravelDate exampleClock (formData.travelDate candidateEdit))"
    "isValid (validateSeatSelection (formData.seats candidateEdit) MAX_SEATS_PER_BOOKING)"
    "int (length (formData.seats candidateEdit)) + 0 \<le> 6"
    by (simp_all add: candidateEdit_def example_mobiles example_date example_seat_selection)
  have tn: "\<not> truthy (formData.bookingId candidateNew)"
    and sn: "formData.seats candidateNew = [''A5'']"
    by (simp_all add: candidateNew_def truthy_def)
  have te: "truthy (formData.bookingId candidateEdit)"
    and se: "formData.seats candidateEdit = [''A5'']"
    and oe: "ownSeat candidateEdit ''A5''"
    by (simp_all add: candidateEdit_def truthy_def ownSeat_def)
  show ?thesis
    using duplicate_seat_rule [OF n, of "[''A5'']"] duplicate_seat_rule [OF n, of "[''B2'']"]
      duplicate_seat_rule [OF e, of "[''A5'']"] n e
    by (simp add: Let_def tn te sn se oe)
qed

text \<open>
  Claim C9, as the code has it. The candidate is changed exactly when the mobile rule
  passes, whether or not the other rules do: its mobile number becomes the cleaned form,
  ten digits, and no other field changes. When the mobile rule fails the candidate is left
  as it was. A successful validation has passed the mobile rule.
\<close>

theorem candidate_mutation:
  "snd (validateBookingForm clk fd booked n) =
     (if isValid (validateMobileNumber (formData.mobileNumber fd))
      then fd\<lparr>formData.mobileNumber := cleanMobile (formData.mobileNumber fd)\<rparr> else fd) \<and>
   (isValid (validateMobileNumber (formData.mobileNumber fd)) \<longrightarrow>
      length (cleanMobile (formData.mobileNumber fd)) = 10 \<and>
      list_all isDigit (cleanMobile (formData.mobileNumber fd))) \<and>
   (formIsValid (fst (validateBookingForm clk fd booked n)) \<longrightarrow>
      isValid (validateMobileNumber (formData.mobileNumber fd)))"
proof -
  have digits: "list_all isDigit (cleanMobile (formData.mobileNumber fd))"
    if "isValid (validateMobileNumber (formData.mobileNumber fd))"
    using validateMobileNumber_valid [OF that]
    by (auto simp: MOBILE_PATTERN_test_def isDigit_def split: list.splits)
  have ok: "isValid (validateMobileNumber (formData.mobileNumber fd))"
    if "formIsValid (fst (validateBookingForm clk fd booked n))"
  proof (rule ccontr)
    assume bad: "\<not> isValid (validateMobileNumber (formData.mobileNumber fd))"
    then have "errors (fst (validateBookingForm clk fd booked n)) = basicErrors clk fd"
      by (simp add: errors_when_basic_fails)
    then have "errors (fst (validateBookingForm clk fd booked n)) ''mobileNumber'' \<noteq> None"
      using bad by (simp add: basicErrors_def)
    with that show False by (simp add: formIsValid_eq)
  qed
  show ?thesis
    using digits ok validateMobileNumber_valid [of "formData.mobileNumber fd"]
    by (simp add: candidate_after)
qed

theorem candidate_mutation_witness:
  "isValid (validateMobileNumber (formData.mobileNumber candidateNew)) \<and>
   formIsValid (fst (validateBookingForm exampleClock candidateNew [] 0)) \<and>
   snd (validateBookingForm exampleClock candidateNew [] 0)
     = candidateNew\<lparr>formData.mobileNumber := ''9876543210''\<rparr> \<and>
   \<not> isValid (validateMobileNumber (formData.mobileNumber candidateBadMobile)) \<and>
   snd (validateBookingForm exampleClock candidateBadMobile [] 0) = candidateBadMobile"
proof -
  have n: "isValid (validateMobileNumber (formData.mobileNumber candidateNew))"
    "isValid (validateTravelDate exampleClock (formData.travelDate candidateNew))"
    "isValid (validateSeatSelection (formData.seats candidateNew) MAX_SEATS_PER_BOOKING)"
    "int (length (formData.seats candidateNew)) + 0 \<le> 6"
    by (simp_all add: candidateNew_def example_mobiles example_date example_seat_selection)
  have v: "formIsValid (fst (validateBookingForm exampleClock candidateNew [] 0))"
    by (simp add: formIsValid_eq errors_all_rules [OF n] conflictSeats_member)
  have m: "formData.mobileNumber candidateNew = ''98765 43210''"
    "formData.mobileNumber candidateBadMobile = ''12345''"
    by (simp_all add: candidateNew_def candidateBadMobile_def)
  show ?thesis
    using candidate_mutation [of exampleClock candidateNew "[]" 0]
      candidate_mutation [of exampleClock candidateBadMobile "[]" 0] v
    by (simp add: m example_mobiles)
qed

text \<open>
  Claim C9 as stated fails: this candidate has no seats, validation fails, and its mobile
  number has been replaced by the cleaned form all the same.
\<close>

theorem failed_validation_mutates_counterexample:
  "\<not> formIsValid (fst (validateBookingForm exampleClock candidateNoSeats [] 0)) \<and>
   formData.mobileNumber candidateNoSeats = ''98765-43210'' \<and>
   formData.mobileNumber (snd (validateBookingForm exampleClock candidateNoSeats [] 0))
     = ''9876543210''"
proof -
  have bad: "\<not> (isValid (validateMobileNumber (formData.mobileNumber candidateNoSeats)) \<and>
      isValid (validateTravelDate exampleClock (formData.travelDate candidateNoSeats)) \<and>
      isValid (validateSeatSelection (formData.seats candidateNoSeats) MAX_SEATS_PER_BOOKING))"
    by (simp add: candidateNoSeats_def example_seat_selection)
  have "errors (fst (validateBookingForm exampleClock candidateNoSeats [] 0)) ''seats'' \<noteq> None"
    unfolding errors_when_basic_fails [OF bad]
    by (simp add: basicErrors_def candidateNoSeats_def example_seat_selection)
  then have "\<not> formIsValid (fst (validateBookingForm exampleClock candidateNoSeats [] 0))"
    by (auto simp: formIsValid_eq)
  then show ?thesis
    by (simp add: candidate_after candidateNoSeats_def example_mobiles)
qed




text \<open>
  Claim C7. When \<open>saveBooking\<close> succeeds, the store \<open>getBookingsFromStorage\<close> returns
  next contains the booking as it was given, every field unchanged, and it is the entry
  found under its \<open>bookingId\<close>. This holds for every booking, so also for the valid ones
  whose seats overlap no other booking of the date.
\<close>

theorem upsert_then_loadAll:
  assumes "success (fst (saveBooking accepted b w))"
  shows "b \<in> set (bookings (loadAll (snd (saveBooking accepted b w)))) \<and>
         find (\<lambda>x. bookingId x = bookingId b)
           (bookings (loadAll (snd (saveBooking accepted b w)))) = Some b \<and>
         booking (fst (saveBooking accepted b w)) = Some b"
proof -
  have l: "loadAll (snd (saveBooking accepted b w)) = upsert b (loadAll w)"
    using assms by (simp add: saveBooking_effect)
  have f: "find (\<lambda>x. bookingId x = bookingId b) (bookings (upsert b (loadAll w))) = Some b"
    by (rule upsert_find)
  then have m: "b \<in> set (bookings (upsert b (loadAll w)))"
    by (metis find_Some_iff nth_mem)
  have r: "booking (fst (saveBooking accepted b w)) = Some b"
    using assms by (simp add: saveBooking_unfold Let_def split: if_splits)
  show ?thesis
    unfolding l using f m r by simp
qed

theorem upsert_then_loadAll_witness:
  "success (fst (saveBooking True exampleBooking (initialWorld True))) \<and>
   exampleBooking \<in> set (bookings (loadAll (snd (saveBooking True exampleBooking (initialWorld True))))) \<and>
   success (fst (saveBooking True exampleBooking (initialWorld False))) \<and>
   exampleBooking \<in> set (bookings (loadAll (snd (saveBooking True exampleBooking (initialWorld False)))))"
proof -
  have u: "usesLocalStorage (initialWorld True)" "storageUsable (initialWorld True)"
    "\<not> usesLocalStorage (initialWorld False)"
    by (simp_all add: usesLocalStorage_def initialWorld_def)
  have a: "success (fst (saveBooking True exampleBooking (initialWorld True)))"
    by (simp add: saveBooking_success write_success read_after u)
  have b: "success (fst (saveBooking True exampleBooking (initialWorld False)))"
    by (simp add: saveBooking_success write_success read_after u)
  show ?thesis
    using a b upsert_then_loadAll [OF a] upsert_then_loadAll [OF b] by simp
qed

text \<open>
  Claim C6. Over every sequence of \<open>saveBooking\<close> and \<open>deleteBooking\<close> calls, whatever
  the host answers to each write: the last booking number never decreases; if it is
  non-negative and at least the numeric suffix of every stored \<open>bookingId\<close>, it stays so;
  and when a booking saved under a freshly generated identifier is stored successfully,
  every identifier generated later, after any further saves and deletions, has a strictly
  larger numeric suffix.
\<close>

theorem sequence_counter_invariant:
  assumes "store_ok (loadAll w)"
  shows "lastBookingNumber (loadAll w) \<le> lastBookingNumber (loadAll (performAll ops w)) \<and>
         store_ok (loadAll (performAll ops w)) \<and>
         (let newId = fst (generateBookingId d w);
              saved = saveBooking accepted (b\<lparr>bookingId := newId\<rparr>) (snd (generateBookingId d w));
              laterId = fst (generateBookingId d' (performAll ops (snd saved)))
          in success (fst saved) \<longrightarrow>
               (\<exists>k k'. idSuffix newId = Some k \<and> idSuffix laterId = Some k' \<and> k < k'))"
proof -
  let ?n = "lastBookingNumber (loadAll w)"
  let ?newId = "fst (generateBookingId d w)"
  let ?w0 = "snd (generateBookingId d w)"
  let ?b = "b\<lparr>bookingId := ?newId\<rparr>"
  let ?saved = "saveBooking accepted ?b ?w0"
  let ?w2 = "performAll ops (snd ?saved)"
  from assms have n0: "0 \<le> ?n" by (simp add: store_ok_iff)
  have new: "idSuffix ?newId = Some (?n + 1)"
    using n0 by (rule generated_suffix)
  have later: "\<exists>k'. idSuffix (fst (generateBookingId d' ?w2)) = Some k' \<and> ?n + 1 < k'"
    if ok: "success (fst ?saved)"
  proof -
    have l0: "loadAll ?w0 = loadAll w" by (simp add: generateBookingId_eq)
    have l1: "loadAll (snd ?saved) = upsert ?b (loadAll w)"
      using ok by (simp add: saveBooking_effect l0)
    have sfx: "idSuffix (bookingId ?b) = Some (?n + 1)" using new by simp
    have last1: "lastBookingNumber (loadAll (snd ?saved)) = ?n + 1"
      unfolding l1 using assms sfx by (rule upsert_fresh_last)
    have ok1: "store_ok (loadAll (snd ?saved))"
      unfolding l1 using assms by (rule upsert_ok)
    have "lastBookingNumber (loadAll (snd ?saved)) \<le> lastBookingNumber (loadAll ?w2)"
      by (rule performAll_mono)
    with last1 have ge: "?n + 1 \<le> lastBookingNumber (loadAll ?w2)" by simp
    with n0 have "0 \<le> lastBookingNumber (loadAll ?w2)" by simp
    then have "idSuffix (fst (generateBookingId d' ?w2)) = Some (lastBookingNumber (loadAll ?w2) + 1)"
      by (rule generated_suffix)
    with ge show ?thesis by simp
  qed
  show ?thesis
    unfolding Let_def using performAll_mono [of w ops] performAll_ok [OF assms, of ops] new later
    by blast
qed

theorem sequence_counter_invariant_witness:
  "store_ok (loadAll (initialWorld True)) \<and>
   fst (generateBookingId ''2025-06-15'' (initialWorld True)) = ''BK-20250615-000001'' \<and>
   success (fst (saveBooking True (exampleBooking\<lparr>bookingId := ''BK-20250615-000001''\<rparr>)
      (snd (generateBookingId ''2025-06-15'' (initialWorld True))))) \<and>
   bookings (loadAll
       (performAll [Delete True ''BK-20250615-000001'']
         (snd (saveBooking True (exampleBooking\<lparr>bookingId := ''BK-20250615-000001''\<rparr>)
            (snd (generateBookingId ''2025-06-15'' (initialWorld True))))))) = [] \<and>
   fst (generateBookingId ''2025-06-16''
       (performAll [Delete True ''BK-20250615-000001'']
         (snd (saveBooking True (exampleBooking\<lparr>bookingId := ''BK-20250615-000001''\<rparr>)
            (snd (generateBookingId ''2025-06-15'' (initialWorld True)))))))
     = ''BK-20250616-000002'' \<and>
   (\<exists>k k'. idSuffix ''BK-20250615-000001'' = Some k \<and>
            idSuffix ''BK-20250616-000002'' = Some k' \<and> k < k') \<and>
   lastBookingNumber (loadAll (initialWorld True))
     \<le> lastBookingNumber (loadAll
          (performAll [Delete True ''BK-20250615-000001''] (initialWorld True))) \<and>
   store_ok (loadAll (performAll [Delete True ''BK-20250615-000001''] (initialWorld True)))"
  using sequence_counter_invariant [OF example_initial_ok,
      of "[Delete True ''BK-20250615-000001'']" "''2025-06-15''" True exampleBooking "''2025-06-16''"]
    example_initial_ok example_first_saved example_deleted
  unfolding Let_def example_first_id example_later_id
  by simp

text \<open>
  Claim C1. On every list of bookings whose identifiers the host's collation orders
  lexicographically, \<open>calculateOptimalBoardingSequence\<close> returns the same bookings, each
  annotated with its farthest row (the maximum row number over its seats), the number of
  its seats in that row, its seat count and a sequence number counting from 1, in
  descending order of the tuple (farthest row, seats in the farthest row, seat count) and,
  among equal tuples, in ascending lexicographic order of \<open>bookingId\<close>.
\<close>

theorem boarding_sequence_order:
  assumes "lexicographic_on localeCompare (map bookingId bs)"
  shows "mset (map unsequenced (calculateOptimalBoardingSequence localeCompare bs)) = mset bs \<and>
    map sequenceNumber (calculateOptimalBoardingSequence localeCompare bs) = [1..<length bs + 1] \<and>
    sorted_wrt spec_before (calculateOptimalBoardingSequence localeCompare bs) \<and>
    (\<forall>r \<in> set (calculateOptimalBoardingSequence localeCompare bs).
       farthestRow r = spec_farthestRow (seats r) \<and>
       seatsInFarthestRow r = spec_seatsInFarthestRow (seats r) \<and>
       totalSeats r = length (seats r))"
proof -
  let ?sorted = "sortBy (compareBookings localeCompare) (map withMetadata bs)"
  let ?out = "calculateOptimalBoardingSequence localeCompare bs"
  have out: "?out = map annotate (enumerate 0 ?sorted)" by (rule sequence_eq)
  have len: "length ?sorted = length bs"
    using mset_sortBy [of "compareBookings localeCompare" "map withMetadata bs"]
    by (metis length_map size_mset)
  have ua: "unsequenced (annotate p) = booking.truncate (snd p)" for p
    by (cases p) (simp add: annotate_fields)
  have "unsequenced \<circ> annotate = booking.truncate \<circ> snd"
    by (rule ext) (simp add: ua)
  then have "map unsequenced ?out = map booking.truncate (map snd (enumerate 0 ?sorted))"
    unfolding out by (simp only: map_map)
  then have un: "map unsequenced ?out = map booking.truncate ?sorted"
    by (simp only: map_snd_enumerate)
  have restored: "map booking.truncate (map withMetadata bs) = bs"
    by (induction bs) (simp_all add: withMetadata_fields)
  have "mset (map booking.truncate ?sorted) = mset (map booking.truncate (map withMetadata bs))"
    by (simp only: mset_map mset_sortBy)
  also have "\<dots> = mset bs"
    by (simp only: restored)
  finally have perm: "mset (map unsequenced ?out) = mset bs"
    by (simp add: un)
  have nth_out: "?out ! i = annotate (i, ?sorted ! i)" if "i < length bs" for i
    unfolding out using that len by (simp add: nth_enumerate_eq)
  have len_out: "length ?out = length bs"
    unfolding out using len by simp
  have seq: "map sequenceNumber ?out = [1..<length bs + 1]"
  proof (rule nth_equalityI)
    show "length (map sequenceNumber ?out) = length [1..<length bs + 1]"
      by (simp only: length_map length_upt len_out add_diff_cancel_right')
  next
    fix i assume "i < length (map sequenceNumber ?out)"
    then have i: "i < length bs" by (simp only: length_map len_out)
    then have "1 + i < length bs + 1" by simp
    then have u: "[1..<length bs + 1] ! i = 1 + i" by (rule nth_upt)
    have "map sequenceNumber ?out ! i = sequenceNumber (?out ! i)"
      using i len_out by (simp only: nth_map)
    also have "\<dots> = i + 1"
      by (simp only: nth_out [OF i] annotate_fields)
    finally show "map sequenceNumber ?out ! i = [1..<length bs + 1] ! i"
      using u by simp
  qed
  have sorted_meta: "sorted_wrt spec_before ?sorted"
    using assms by (rule sorted_metadata)
  have before: "spec_before (annotate p) (annotate q) = spec_before (snd p) (snd q)" for p q
    by (cases p; cases q) (simp add: spec_before_def spec_tuple_def annotate_fields)
  have "sorted_wrt (\<lambda>p q. spec_before (snd p) (snd q)) (enumerate 0 ?sorted)"
    using sorted_meta by (simp add: sorted_wrt_map [symmetric] del: sorted_wrt_map)
  then have sorted_out: "sorted_wrt spec_before ?out"
    unfolding out by (simp add: sorted_wrt_map before)
  have meta: "farthestRow r = spec_farthestRow (seats r) \<and>
       seatsInFarthestRow r = spec_seatsInFarthestRow (seats r) \<and>
       totalSeats r = length (seats r)" if "r \<in> set ?out" for r
  proof -
    from that obtain i m where r: "r = annotate (i, m)" and "m \<in> set ?sorted"
      unfolding out by (auto simp: in_set_enumerate_eq)
    then have "m \<in> set (map withMetadata bs)" by (simp add: set_sortBy)
    then obtain b where "m = withMetadata b" by auto
    with r show ?thesis by (simp add: annotate_fields withMetadata_fields)
  qed
  show ?thesis
    using perm seq sorted_out meta by blast
qed

theorem boarding_sequence_order_witness:
  "lexicographic_on lexCompare (map bookingId exampleBookings) \<and>
   map bookingId (calculateOptimalBoardingSequence lexCompare exampleBookings) =
     [''BK-20250615-000004'', ''BK-20250615-000003'', ''BK-20250615-000002'',
      ''BK-20250615-000001''] \<and>
   map farthestRow (calculateOptimalBoardingSequence lexCompare exampleBookings) = [15, 10, 10, 3] \<and>
   map seatsInFarthestRow (calculateOptimalBoardingSequence lexCompare exampleBookings)
     = [1, 2, 1, 1] \<and>
   map sequenceNumber (calculateOptimalBoardingSequence lexCompare exampleBookings)
     = [1, 2, 3, 4] \<and>
   mset (map unsequenced (calculateOptimalBoardingSequence lexCompare exampleBookings))
     = mset exampleBookings \<and>
   sorted_wrt spec_before (calculateOptimalBoardingSequence lexCompare exampleBookings)"
proof -
  have n: "[1..<length exampleBookings + 1] = [1, 2, 3, 4]"
    by (simp add: exampleBookings_def upt_rec)
  show ?thesis
    using boarding_sequence_order [OF example_collation] example_collation example_sequence
    unfolding n by simp
qed

end
